theory Spec2Isabelle
  imports Main "HOL-Library.AList"
begin

section \<open>JavaScript strings\<close>

text \<open>
  A JavaScript string is modelled as a \<open>string\<close>: a list of code units, here the code
  units below 256.  The character classes of the regular expressions of the source are
  predicates on \<open>char\<close>; \<open>\s\<close> is its restriction to these code units.
\<close>

definition isSpace :: "char \<Rightarrow> bool" where
  "isSpace c = (c \<in> set [CHR 0x09, CHR 0x0A, CHR 0x0B, CHR 0x0C, CHR 0x0D, CHR 0x20, CHR 0xA0])"

text \<open>The dot of a regular expression matches every code unit but a line terminator.\<close>

definition isLineTerminator :: "char \<Rightarrow> bool" where
  "isLineTerminator c = (c = CHR 0x0A \<or> c = CHR 0x0D)"

definition isDigit :: "char \<Rightarrow> bool" where
  "isDigit c = (48 \<le> (of_char c :: nat) \<and> (of_char c :: nat) \<le> 57)"

definition isUpper :: "char \<Rightarrow> bool" where
  "isUpper c = (65 \<le> (of_char c :: nat) \<and> (of_char c :: nat) \<le> 90)"

definition isLower :: "char \<Rightarrow> bool" where
  "isLower c = (97 \<le> (of_char c :: nat) \<and> (of_char c :: nat) \<le> 122)"

text \<open>
  \<open>String.prototype.toLowerCase\<close> on the code units below 256: the letters \<open>A\<close> to \<open>Z\<close>
  and the capital letters of Latin-1 (\<open>0xC0\<close> to \<open>0xDE\<close> without the multiplication sign
  \<open>0xD7\<close>) are moved up by 32, every other code unit is kept.
\<close>

definition isCapital :: "char \<Rightarrow> bool" where
  "isCapital c =
     (isUpper c
      \<or> (192 \<le> (of_char c :: nat) \<and> (of_char c :: nat) \<le> 222 \<and> (of_char c :: nat) \<noteq> 215))"

definition lowerChar :: "char \<Rightarrow> char" where
  "lowerChar c = (if isCapital c then char_of (of_char c + (32 :: nat)) else c)"

definition toLowerCase :: "string \<Rightarrow> string" where
  "toLowerCase s = map lowerChar s"

text \<open>A property key made of a value that may be \<open>undefined\<close>: \<open>obj[undefined]\<close> reads
  the key \<open>"undefined"\<close>.\<close>

definition js_key :: "string option \<Rightarrow> string" where
  "js_key v = (case v of None \<Rightarrow> ''undefined'' | Some s \<Rightarrow> s)"

text \<open>\<open>s.split(/ +/)\<close>: the pieces between the maximal runs of spaces, the empty pieces
  at both ends included.\<close>

function split_spaces :: "string \<Rightarrow> string list" where
  "split_spaces s =
     (let tok = takeWhile (\<lambda>c. c \<noteq> CHR '' '') s;
          r = dropWhile (\<lambda>c. c \<noteq> CHR '' '') s
      in if r = [] then [tok]
         else tok # split_spaces (dropWhile (\<lambda>c. c = CHR '' '') r))"
  by pat_completeness auto
termination
proof (relation "measure length")
  show "wf (measure length)" by simp
next
  fix s :: string and tok r
  assume r: "r = dropWhile (\<lambda>c. c \<noteq> CHR '' '') s" and ne: "r \<noteq> []"
  have "length (dropWhile (\<lambda>c. c = CHR '' '') r) < length r"
  proof (cases r)
    case Nil
    with ne show ?thesis by simp
  next
    case (Cons a as)
    have "dropWhile (\<lambda>c. c \<noteq> CHR '' '') s \<noteq> []"
      using r ne by simp
    then have "\<not> hd (dropWhile (\<lambda>c. c \<noteq> CHR '' '') s) \<noteq> CHR '' ''"
      by (rule hd_dropWhile)
    moreover have "hd (dropWhile (\<lambda>c. c \<noteq> CHR '' '') s) = a"
      using r Cons by (metis list.sel(1))
    ultimately have "a = CHR '' ''"
      by simp
    then have "dropWhile (\<lambda>c. c = CHR '' '') r = dropWhile (\<lambda>c. c = CHR '' '') as"
      using Cons by simp
    then show ?thesis
      using length_dropWhile_le [of "\<lambda>c. c = CHR '' ''" as] Cons by simp
  qed
  moreover have "length r \<le> length s"
    using r length_dropWhile_le by blast
  ultimately show "(dropWhile (\<lambda>c. c = CHR '' '') r, s) \<in> measure length"
    by simp
qed

declare split_spaces.simps [simp del]

section \<open>Plain objects\<close>

text \<open>
  The objects that the program uses as dictionaries (\<open>replyFor\<close>, \<open>this.chans\<close>, the
  \<open>users\<close> of a channel) are plain objects: reading \<open>obj[k]\<close> yields the object's own
  property \<open>k\<close> and, when it has none, the property \<open>k\<close> of \<open>Object.prototype\<close>.
  \<open>Object.prototype\<close> is taken as ECMAScript (with its Annex B) defines it: \<open>constructor\<close>
  holds the function \<open>Object\<close>; reading \<open>__proto__\<close> yields the prototype of the object
  read, which is \<open>Object.prototype\<close> itself; the other ten properties are methods.
\<close>

datatype inherited = ObjectFunction | ObjectPrototype | Method string

definition Object_prototype_methods :: "string list" where
  "Object_prototype_methods =
     [''__defineGetter__'', ''__defineSetter__'', ''hasOwnProperty'', ''__lookupGetter__'',
      ''__lookupSetter__'', ''isPrototypeOf'', ''propertyIsEnumerable'', ''toString'',
      ''valueOf'', ''toLocaleString'']"

definition Object_prototype :: "string \<Rightarrow> inherited option" where
  "Object_prototype k =
     (if k = ''constructor'' then Some ObjectFunction
      else if k = ''__proto__'' then Some ObjectPrototype
      else if k \<in> set Object_prototype_methods then Some (Method k)
      else None)"

text \<open>The property \<open>name\<close> of an inherited value: a function has its name, the object
  \<open>Object.prototype\<close> has no such property.\<close>

definition inherited_name :: "inherited \<Rightarrow> string option" where
  "inherited_name f =
     (case f of ObjectFunction \<Rightarrow> Some ''Object'' | ObjectPrototype \<Rightarrow> None | Method k \<Rightarrow> Some k)"

section \<open>Colour and style stripping (color-utils.ts)\<close>

definition isStyleChar :: "char \<Rightarrow> bool" where
  "isStyleChar ch = (ch \<in> set [CHR 0x0F, CHR 0x1F, CHR 0x02, CHR 0x1D, CHR 0x16, CHR 0x1E, CHR 0x11])"

definition colorChar :: char where
  "colorChar = CHR 0x03"

text \<open>\<open>\d{0,2}\<close>, greedy: what is left after at most two digits.\<close>

fun skip_digits2 :: "string \<Rightarrow> string" where
  "skip_digits2 (a # b # r) = (if isDigit a then (if isDigit b then r else b # r) else a # b # r)"
| "skip_digits2 [a] = (if isDigit a then [] else [a])"
| "skip_digits2 [] = []"

text \<open>What is left of the text after a colour character once
  \<open>\d{0,2}(,\d{0,2}|\x02\x02)?\<close> has matched; every part is optional, so the greedy
  choice never backtracks.\<close>

definition skip_color_code :: "string \<Rightarrow> string" where
  "skip_color_code xs =
     (case skip_digits2 xs of
        [] \<Rightarrow> []
      | y # ys \<Rightarrow>
          if y = CHR '','' then skip_digits2 ys
          else (case ys of
                  [] \<Rightarrow> y # ys
                | z # zs \<Rightarrow> if y = CHR 0x02 \<and> z = CHR 0x02 then zs else y # ys))"

lemma length_skip_digits2: "length (skip_digits2 xs) \<le> length xs"
  by (induction xs rule: skip_digits2.induct) auto

lemma length_skip_color_code: "length (skip_color_code xs) \<le> length xs"
proof -
  have a: "length (skip_digits2 xs) \<le> length xs" by (rule length_skip_digits2)
  show ?thesis
  proof (cases "skip_digits2 xs")
    case Nil
    then show ?thesis by (simp add: skip_color_code_def)
  next
    case (Cons y ys)
    have b: "length (skip_digits2 ys) \<le> length ys" by (rule length_skip_digits2)
    from Cons a b show ?thesis
      by (auto simp: skip_color_code_def split: list.splits)
  qed
qed

function stripColors :: "string \<Rightarrow> string" where
  "stripColors [] = []"
| "stripColors (x # xs) =
     (if x = colorChar then stripColors (skip_color_code xs) else x # stripColors xs)"
  by pat_completeness auto
termination
  by (relation "measure length") (auto simp: length_skip_color_code less_Suc_eq_le)

text \<open>
  The first loop of \<open>stripStyle\<close>.  \<open>len\<close> is the length of the text on entry and stays
  fixed; \<open>str\<close> shrinks and \<open>i\<close> steps back when a pair of style characters is cut out.
  \<open>path\<close> is the stack of the source, its top at the head.  \<open>str[i]\<close> past the end is
  \<open>undefined\<close>, which is no style character.
\<close>

function stripStyle_loop ::
  "nat \<Rightarrow> nat \<Rightarrow> string \<Rightarrow> (char \<times> nat) list \<Rightarrow> string \<times> (char \<times> nat) list" where
  "stripStyle_loop i len str path =
     (if i < len then
        (if i < length str \<and> (isStyleChar (str ! i) \<or> str ! i = colorChar) then
           (case path of
              [] \<Rightarrow> stripStyle_loop (i + 1) len str ((str ! i, i) # path)
            | (ch, p0) # rest \<Rightarrow>
                if ch = str ! i then
                  (if i - p0 > 1 \<and> str ! i \<noteq> colorChar
                   then stripStyle_loop (i - 1) len
                          (take p0 str @ take (i - (p0 + 1)) (drop (p0 + 1) str) @ drop (i + 1) str)
                          rest
                   else stripStyle_loop (i + 1) len str rest)
                else stripStyle_loop (i + 1) len str ((str ! i, i) # path))
         else stripStyle_loop (i + 1) len str path)
      else (str, path))"
  by pat_completeness auto

lemma stripStyle_cut_count:
  assumes "i < length str" and "P (str ! i)" and "1 < i - p0"
  shows "length (filter P (take p0 str @ take (i - (p0 + 1)) (drop (p0 + 1) str) @ drop (i + 1) str))
         < length (filter P str)"
proof -
  have p0: "p0 + 1 \<le> i" using assms(3) by simp
  have mid: "take (i - (p0 + 1)) (drop (p0 + 1) str) = drop (p0 + 1) (take i str)"
    by (simp add: drop_take)
  have "length (filter P (take p0 str)) + length (filter P (drop (p0 + 1) (take i str)))
        \<le> length (filter P (take p0 (take i str))) + length (filter P (drop p0 (take i str)))"
  proof -
    have "take p0 (take i str) = take p0 str" using p0 by (simp add: min_def)
    moreover have "drop p0 (take i str) = take 1 (drop p0 (take i str)) @ drop (p0 + 1) (take i str)"
      by (metis add.commute append_take_drop_id drop_drop)
    then have "length (filter P (drop (p0 + 1) (take i str))) \<le> length (filter P (drop p0 (take i str)))"
      by (metis filter_append le_add2 length_append)
    ultimately show ?thesis by simp
  qed
  also have "\<dots> = length (filter P (take i str))"
    by (metis append_take_drop_id filter_append length_append)
  finally have a: "length (filter P (take p0 str)) + length (filter P (drop (p0 + 1) (take i str)))
                   \<le> length (filter P (take i str))" .
  have s: "str = take i str @ str ! i # drop (Suc i) str"
    using assms(1) by (rule id_take_nth_drop)
  have "length (filter P str) = length (filter P (take i str @ str ! i # drop (Suc i) str))"
    by (rule arg_cong [where f = "\<lambda>x. length (filter P x)", OF s])
  also have "\<dots> = length (filter P (take i str)) + 1 + length (filter P (drop (i + 1) str))"
    using assms(2) by simp
  finally have "length (filter P str)
             = length (filter P (take i str)) + 1 + length (filter P (drop (i + 1) str))" .
  with a mid show ?thesis by simp
qed

termination stripStyle_loop
proof (relation "measure (\<lambda>(i, len, str, path).
          2 * length (filter (\<lambda>c. isStyleChar c \<or> c = colorChar) str) + (len - i))",
       goal_cases)
  case 1
  show ?case by simp
next
  case (2 i len str path)
  then show ?case by auto
next
  case (3 i len str path x21 x22 x y)
  have "length (filter (\<lambda>c. isStyleChar c \<or> c = colorChar)
           (take y str @ take (i - (y + 1)) (drop (y + 1) str) @ drop (i + 1) str))
        < length (filter (\<lambda>c. isStyleChar c \<or> c = colorChar) str)"
    using 3 by (intro stripStyle_cut_count) auto
  moreover have "len - (i - 1) = len - i + 1"
    using 3 by linarith
  ultimately show ?case by simp
next
  case (4 i len str path x21 x22 x y)
  then show ?case by auto
next
  case (5 i len str path x21 x22 x y)
  then show ?case by auto
next
  case (6 i len str path)
  then show ?case by auto
qed

declare stripStyle_loop.simps [simp del]

text \<open>The second loop removes the style characters left unmatched, last pushed first;
  colour characters stay.\<close>

definition stripStyle :: "string \<Rightarrow> string" where
  "stripStyle str =
     (case stripStyle_loop 0 (length str) str [] of
        (str', path) \<Rightarrow>
          fold (\<lambda>(ch, pos) s. if ch \<noteq> colorChar then take pos s @ drop (pos + 1) s else s)
               path str')"

definition stripColorsAndStyle :: "string \<Rightarrow> string" where
  "stripColorsAndStyle str = stripColors (stripStyle str)"

section \<open>The message parser (parse_message.ts)\<close>

datatype CommandType = Normal | Reply | Error

text \<open>An exception of the JavaScript runtime; the text names the expression that failed.\<close>

datatype exn = TypeError string

text \<open>An entry of the reply table \<open>replyFor\<close> of codes.ts.  The table itself is a
  parameter of the parser: the own properties of the object \<open>replyFor\<close>, as a lookup that
  yields the entry of a command token, if any.\<close>

record replyEntry =
  reply_name :: string
  reply_type :: CommandType

text \<open>
  \<open>if (replyFor[rawCommand]) { command = replyFor[rawCommand].name; commandType =
  replyFor[rawCommand].type }\<close> after \<open>command = rawCommand; commandType = "normal"\<close>.
  The table is a plain object, so the lookup also finds what \<open>Object.prototype\<close> holds
  under the token: a function or an object, which has no property \<open>type\<close>.
\<close>

definition reply_command :: "(string \<Rightarrow> replyEntry option) \<Rightarrow> string \<Rightarrow> string option" where
  "reply_command replyFor cmd =
     (case replyFor cmd of
        Some e \<Rightarrow> Some (reply_name e)
      | None \<Rightarrow> (case Object_prototype cmd of Some f \<Rightarrow> inherited_name f | None \<Rightarrow> Some cmd))"

definition reply_commandType ::
  "(string \<Rightarrow> replyEntry option) \<Rightarrow> string \<Rightarrow> CommandType option" where
  "reply_commandType replyFor cmd =
     (case replyFor cmd of
        Some e \<Rightarrow> Some (reply_type e)
      | None \<Rightarrow> (case Object_prototype cmd of Some f \<Rightarrow> None | None \<Rightarrow> Some Normal))"

text \<open>A message.  The fields that can be \<open>undefined\<close> are options.\<close>

record IMessage =
  prefix :: "string option"
  nick :: "string option"
  user :: "string option"
  host :: "string option"
  server :: "string option"
  command :: "string option"
  rawCommand :: string
  commandType :: "CommandType option"
  args :: "string list"

text \<open>\<open>line.match(/^:([^ ]+) +/)\<close>: the first group.  The greedy run of non-spaces after
  the colon must be non-empty and be followed by a space.\<close>

definition prefix_match :: "string \<Rightarrow> string option" where
  "prefix_match line =
     (case line of
        [] \<Rightarrow> None
      | c # cs \<Rightarrow>
          if c = CHR '':''
             \<and> takeWhile (\<lambda>x. x \<noteq> CHR '' '') cs \<noteq> []
             \<and> dropWhile (\<lambda>x. x \<noteq> CHR '' '') cs \<noteq> []
          then Some (takeWhile (\<lambda>x. x \<noteq> CHR '' '') cs)
          else None)"

text \<open>\<open>line.replace(/^:[^ ]+ +/, "")\<close>.\<close>

definition prefix_replace :: "string \<Rightarrow> string" where
  "prefix_replace line =
     (case prefix_match line of
        None \<Rightarrow> line
      | Some p \<Rightarrow> dropWhile (\<lambda>x. x = CHR '' '') (dropWhile (\<lambda>x. x \<noteq> CHR '' '') (tl line)))"

text \<open>The class \<open>[_a-zA-Z0-9\~\[\]\\`^{}|-]\<close>.\<close>

definition isNickChar :: "char \<Rightarrow> bool" where
  "isNickChar c =
     (isLower c \<or> isUpper c \<or> isDigit c
      \<or> c \<in> set [CHR ''_'', CHR ''~'', CHR ''['', CHR '']'', CHR 0x5C, CHR 0x60, CHR ''^'',
                  CHR ''{'', CHR ''}'', CHR ''|'', CHR ''-''])"

text \<open>
  \<open>prefix.match(/^([_a-zA-Z0-9\~\[\]\\`^{}|-]*)(!([^@]+)@(.*))?$/)\<close>: the four groups of
  the match, \<open>None\<close> when the expression does not match.  Group 1 is the longest run of
  nick characters; what follows is either nothing (groups 2 to 4 are \<open>undefined\<close>) or
  \<open>!\<close>, a non-empty run without \<open>@\<close>, \<open>@\<close>, and a rest without line terminator.
\<close>

definition nick_regex ::
  "string \<Rightarrow> (string \<times> string option \<times> string option \<times> string option) option" where
  "nick_regex p =
     (let g1 = takeWhile isNickChar p; r = dropWhile isNickChar p
      in case r of
           [] \<Rightarrow> Some (g1, None, None, None)
         | c # cs \<Rightarrow>
             if c = CHR ''!''
                \<and> takeWhile (\<lambda>x. x \<noteq> CHR ''@'') cs \<noteq> []
                \<and> dropWhile (\<lambda>x. x \<noteq> CHR ''@'') cs \<noteq> []
                \<and> list_all (\<lambda>x. \<not> isLineTerminator x) (tl (dropWhile (\<lambda>x. x \<noteq> CHR ''@'') cs))
             then Some (g1, Some r, Some (takeWhile (\<lambda>x. x \<noteq> CHR ''@'') cs),
                        Some (tl (dropWhile (\<lambda>x. x \<noteq> CHR ''@'') cs)))
             else None)"

text \<open>\<open>line.match(/^([^ ]+) */)\<close>: the first group; \<open>None\<close> is the \<open>null\<close> of a line
  that is empty or starts with a space.\<close>

definition command_match :: "string \<Rightarrow> string option" where
  "command_match line =
     (if takeWhile (\<lambda>x. x \<noteq> CHR '' '') line \<noteq> []
      then Some (takeWhile (\<lambda>x. x \<noteq> CHR '' '') line) else None)"

text \<open>\<open>line.replace(/^[^ ]+ +/, "")\<close>: nothing is replaced unless a space follows the
  first token.\<close>

definition command_replace :: "string \<Rightarrow> string" where
  "command_replace line =
     (if takeWhile (\<lambda>x. x \<noteq> CHR '' '') line \<noteq> [] \<and> dropWhile (\<lambda>x. x \<noteq> CHR '' '') line \<noteq> []
      then dropWhile (\<lambda>x. x = CHR '' '') (dropWhile (\<lambda>x. x \<noteq> CHR '' '') line)
      else line)"

text \<open>
  The alternative \<open>(?:^:|\s+:)\<close> tried at one position: \<open>at0\<close> says that the position
  is the start of the line, \<open>s\<close> is the text from the position on.  The result is the
  text after the colon.
\<close>

definition colon_at :: "bool \<Rightarrow> string \<Rightarrow> string option" where
  "colon_at at0 s =
     (case s of
        [] \<Rightarrow> None
      | c # cs \<Rightarrow>
          if at0 \<and> c = CHR '':'' then Some cs
          else if takeWhile isSpace s \<noteq> []
                  \<and> dropWhile isSpace s \<noteq> []
                  \<and> hd (dropWhile isSpace s) = CHR '':''
          then Some (tl (dropWhile isSpace s))
          else None)"

text \<open>\<open>line.search(/^:|\s+:/) !== -1\<close>.\<close>

fun search_colon_from :: "bool \<Rightarrow> string \<Rightarrow> bool" where
  "search_colon_from at0 [] = False"
| "search_colon_from at0 (c # cs) =
     (if colon_at at0 (c # cs) \<noteq> None then True else search_colon_from False cs)"

definition search_colon :: "string \<Rightarrow> bool" where
  "search_colon line = search_colon_from True line"

text \<open>
  \<open>line.match(/(.*?)(?:^:|\s+:)(.*)/)\<close>: groups 1 and 2.  The lazy first group ends at
  the first position where the alternative matches.  As the dot matches no line
  terminator, the match starts after the last line terminator before that position:
  \<open>acc\<close> holds, reversed, the text read since then.  Group 2 runs up to the next line
  terminator.
\<close>

fun params_match_from :: "bool \<Rightarrow> string \<Rightarrow> string \<Rightarrow> (string \<times> string) option" where
  "params_match_from at0 acc [] = None"
| "params_match_from at0 acc (c # cs) =
     (case colon_at at0 (c # cs) of
        Some rest \<Rightarrow> Some (rev acc, takeWhile (\<lambda>x. \<not> isLineTerminator x) rest)
      | None \<Rightarrow> params_match_from False (if isLineTerminator c then [] else c # acc) cs)"

definition params_match :: "string \<Rightarrow> (string \<times> string) option" where
  "params_match line = params_match_from True [] line"

text \<open>
  \<open>parseMessage(line, stripColors)\<close> of src/parse_message.ts.  The destructuring
  \<open>const [_, nick, user, host] = prefix.match(...)\<close> binds \<open>nick\<close>, \<open>user\<close> and
  \<open>host\<close> to the groups 1, 2 and 3 of the match.  Destructuring the \<open>null\<close> of a failed
  command match throws.
\<close>

definition parseMessage ::
  "(string \<Rightarrow> replyEntry option) \<Rightarrow> string \<Rightarrow> bool \<Rightarrow> exn + IMessage" where
  "parseMessage replyFor line0 strip =
     (let line1 = (if strip then stripColorsAndStyle line0 else line0);
          pm = prefix_match line1;
          line2 = (case pm of None \<Rightarrow> line1 | Some p \<Rightarrow> prefix_replace line1);
          groups = (case pm of None \<Rightarrow> None | Some p \<Rightarrow> nick_regex p)
      in case command_match line2 of
           None \<Rightarrow> Inl (TypeError ''command match is null'')
         | Some cmd \<Rightarrow>
             (let line3 = command_replace line2;
                  mt = (if search_colon line3
                        then (case params_match line3 of
                                Some (m, t) \<Rightarrow> Inr (m, Some t)
                              | None \<Rightarrow> Inl (TypeError ''parameter match is null''))
                        else Inr (line3, None))
              in case mt of
                   Inl e \<Rightarrow> Inl e
                 | Inr (middle, trailing) \<Rightarrow>
                     Inr \<lparr> prefix = pm,
                           nick = (case groups of Some (g1, g2, g3, g4) \<Rightarrow> Some g1 | None \<Rightarrow> None),
                           user = (case groups of Some (g1, g2, g3, g4) \<Rightarrow> g2 | None \<Rightarrow> None),
                           host = (case groups of Some (g1, g2, g3, g4) \<Rightarrow> g3 | None \<Rightarrow> None),
                           server = (case pm of
                                       None \<Rightarrow> None
                                     | Some p \<Rightarrow> (case groups of Some g \<Rightarrow> None | None \<Rightarrow> Some p)),
                           command = reply_command replyFor cmd,
                           rawCommand = cmd,
                           commandType = reply_commandType replyFor cmd,
                           args = (if middle \<noteq> [] then split_spaces middle else [])
                                  @ (case trailing of
                                       None \<Rightarrow> []
                                     | Some t \<Rightarrow> if t \<noteq> [] then [t] else []) \<rparr>))"

text \<open>
  The default export \<open>parseMessage\<close> kept in the other copy of the parser: it reads the
  groups of the prefix match by index (\<open>match[1]\<close>, \<open>match[3]\<close>, \<open>match[4]\<close>) and trims
  the middle part on the right.
\<close>

definition trimRight :: "string \<Rightarrow> string" where
  "trimRight s = rev (dropWhile isSpace (rev s))"

definition parseMessage_default ::
  "(string \<Rightarrow> replyEntry option) \<Rightarrow> string \<Rightarrow> bool \<Rightarrow> exn + IMessage" where
  "parseMessage_default replyFor line0 strip =
     (let line1 = (if strip then stripColorsAndStyle line0 else line0);
          pm = prefix_match line1;
          line2 = (case pm of None \<Rightarrow> line1 | Some p \<Rightarrow> prefix_replace line1);
          groups = (case pm of None \<Rightarrow> None | Some p \<Rightarrow> nick_regex p)
      in case command_match line2 of
           None \<Rightarrow> Inl (TypeError ''command match is null'')
         | Some cmd \<Rightarrow>
             (let line3 = command_replace line2;
                  mt = (if search_colon line3
                        then (case params_match line3 of
                                Some (m, t) \<Rightarrow> Inr (trimRight m, Some t)
                              | None \<Rightarrow> Inl (TypeError ''parameter match is null''))
                        else Inr (line3, None))
              in case mt of
                   Inl e \<Rightarrow> Inl e
                 | Inr (middle, trailing) \<Rightarrow>
                     Inr \<lparr> prefix = pm,
                           nick = (case groups of Some (g1, g2, g3, g4) \<Rightarrow> Some g1 | None \<Rightarrow> None),
                           user = (case groups of Some (g1, g2, g3, g4) \<Rightarrow> g3 | None \<Rightarrow> None),
                           host = (case groups of Some (g1, g2, g3, g4) \<Rightarrow> g4 | None \<Rightarrow> None),
                           server = (case pm of
                                       None \<Rightarrow> None
                                     | Some p \<Rightarrow> (case groups of Some g \<Rightarrow> None | None \<Rightarrow> Some p)),
                           command = reply_command replyFor cmd,
                           rawCommand = cmd,
                           commandType = reply_commandType replyFor cmd,
                           args = (if middle \<noteq> [] then split_spaces middle else [])
                                  @ (case trailing of
                                       None \<Rightarrow> []
                                     | Some t \<Rightarrow> if t \<noteq> [] then [t] else []) \<rparr>))"

text \<open>Three entries of the reply table, for running the parser on examples.\<close>

definition sample_replyFor :: "string \<Rightarrow> replyEntry option" where
  "sample_replyFor = map_of
     [(''001'', \<lparr> reply_name = ''rpl_welcome'', reply_type = Reply \<rparr>),
      (''433'', \<lparr> reply_name = ''err_nicknameinuse'', reply_type = Error \<rparr>),
      (''332'', \<lparr> reply_name = ''rpl_topic'', reply_type = Reply \<rparr>)]"

subsection \<open>Properties of the parser\<close>

lemma stripColorsAndStyle_Nil: "stripColorsAndStyle [] = []"
  by (simp add: stripColorsAndStyle_def stripStyle_def stripStyle_loop.simps [of 0 0])

lemma search_colon_params_match:
  "search_colon_from at0 s \<Longrightarrow> params_match_from at0 acc s \<noteq> None"
  by (induction s arbitrary: at0 acc) (auto split: option.splits)

text \<open>The parser returns a message whenever the line holds a command token: once the
  search for a colon has succeeded, the parameter match succeeds too.\<close>

lemma parseMessage_returns:
  assumes "command_match (let l = (if strip then stripColorsAndStyle line else line)
                          in case prefix_match l of None \<Rightarrow> l | Some p \<Rightarrow> prefix_replace l) = Some c"
  shows "\<exists>m. parseMessage replyFor line strip = Inr m"
proof -
  define l3 where "l3 = command_replace (let l = (if strip then stripColorsAndStyle line else line)
                          in case prefix_match l of None \<Rightarrow> l | Some p \<Rightarrow> prefix_replace l)"
  have "search_colon l3 \<Longrightarrow> \<exists>m t. params_match l3 = Some (m, t)"
    using search_colon_params_match [of True l3 "[]"]
    by (auto simp: search_colon_def params_match_def)
  then show ?thesis
    using assms unfolding parseMessage_def Let_def l3_def
    by (auto split: option.splits)
qed

text \<open>The command fields of a returned message are what the lookup of the command token
  yields.\<close>

lemma parseMessage_command:
  assumes "parseMessage replyFor line strip = Inr m"
  shows "command_match (let l = (if strip then stripColorsAndStyle line else line)
                        in case prefix_match l of None \<Rightarrow> l | Some p \<Rightarrow> prefix_replace l)
           = Some (rawCommand m)
         \<and> command m = reply_command replyFor (rawCommand m)
         \<and> commandType m = reply_commandType replyFor (rawCommand m)"
  using assms unfolding parseMessage_def Let_def
  by (auto split: option.splits sum.splits if_splits)

text \<open>
  Claim C1, at the line \<open>:nick!user@host PRIVMSG a b :trailing text\<close>.  The prefix, the
  nick and the three arguments are as the claim says, the trailing text verbatim.  The
  fields \<open>user\<close> and \<open>host\<close> are not: \<open>user\<close> holds the second group of the prefix
  match, \<open>!user@host\<close>, and \<open>host\<close> holds the third, \<open>user\<close>.
\<close>

theorem parseMessage_user_host_shifted:
  "parseMessage sample_replyFor '':nick!user@host PRIVMSG a b :trailing text'' False
   = Inr \<lparr> prefix = Some ''nick!user@host'', nick = Some ''nick'',
           user = Some ''!user@host'', host = Some ''user'', server = None,
           command = Some ''PRIVMSG'', rawCommand = ''PRIVMSG'', commandType = Some Normal,
           args = [''a'', ''b'', ''trailing text''] \<rparr>"
  by code_simp

text \<open>The other copy of the parser, which reads the groups by index, splits the same
  prefix into \<open>nick\<close>, \<open>user\<close> and \<open>host\<close>.\<close>

lemma parseMessage_default_user_host:
  "parseMessage_default sample_replyFor '':nick!user@host PRIVMSG a b :trailing text'' False
   = Inr \<lparr> prefix = Some ''nick!user@host'', nick = Some ''nick'',
           user = Some ''user'', host = Some ''host'', server = None,
           command = Some ''PRIVMSG'', rawCommand = ''PRIVMSG'', commandType = Some Normal,
           args = [''a'', ''b'', ''trailing text''] \<rparr>"
  by code_simp

text \<open>
  Claim C8 fails at the line \<open>constructor a\<close>: the token is no key of the reply table, but
  the lookup finds the function \<open>Object\<close> that the table inherits, so \<open>command\<close> is the
  name of that function and \<open>commandType\<close> is \<open>undefined\<close>.
\<close>

theorem parseMessage_inherited_counterexample:
  "sample_replyFor ''constructor'' = None
   \<and> parseMessage sample_replyFor ''constructor a'' False
     = Inr \<lparr> prefix = None, nick = None, user = None, host = None, server = None,
             command = Some ''Object'', rawCommand = ''constructor'', commandType = None,
             args = [''a''] \<rparr>"
  by code_simp

text \<open>
  Claim C8 as amended.  Whenever the parser returns a message, \<open>rawCommand\<close> is the
  command token of the line (the first run of non-spaces after the optional prefix).  If
  the reply table has an entry for the token, \<open>command\<close> is the entry's symbolic name and
  \<open>commandType\<close> the entry's classification; if it has none and the token is not the name
  of a property of \<open>Object.prototype\<close>, \<open>commandType\<close> is \<open>normal\<close> and \<open>command\<close> is the
  token itself.
\<close>

theorem parseMessage_reply_table:
  assumes "parseMessage replyFor line strip = Inr m"
  shows "command_match (let l = (if strip then stripColorsAndStyle line else line)
                        in case prefix_match l of None \<Rightarrow> l | Some p \<Rightarrow> prefix_replace l)
           = Some (rawCommand m)
         \<and> (case replyFor (rawCommand m) of
               Some e \<Rightarrow> command m = Some (reply_name e) \<and> commandType m = Some (reply_type e)
             | None \<Rightarrow>
                 Object_prototype (rawCommand m) = None
                 \<longrightarrow> commandType m = Some Normal \<and> command m = Some (rawCommand m))"
proof -
  from parseMessage_command [OF assms]
  have "command m = reply_command replyFor (rawCommand m)"
    and "commandType m = reply_commandType replyFor (rawCommand m)"
    and "command_match (let l = (if strip then stripColorsAndStyle line else line)
                        in case prefix_match l of None \<Rightarrow> l | Some p \<Rightarrow> prefix_replace l)
           = Some (rawCommand m)"
    by simp_all
  then show ?thesis
    by (simp add: reply_command_def reply_commandType_def split: option.split)
qed

text \<open>
  Claim C9 fails at the empty line: the command match is \<open>null\<close> and its destructuring
  throws, so no message is returned.
\<close>

theorem parseMessage_empty_line_counterexample:
  "parseMessage sample_replyFor [] False = Inl (TypeError ''command match is null'')"
  by code_simp

text \<open>
  Claim C9 as amended: for every reply table and either value of the colour flag,
  \<open>parseMessage\<close> applied to the empty line throws a TypeError; it returns no message.
\<close>

theorem parseMessage_empty_line_throws:
  "parseMessage replyFor [] strip = Inl (TypeError ''command match is null'')"
  by (simp add: parseMessage_def stripColorsAndStyle_Nil prefix_match_def command_match_def)

text \<open>The theorem of claim C8 at a numeric reply of the sample table and at a command
  that the table does not hold.\<close>

theorem parseMessage_reply_table_witness:
  "parseMessage sample_replyFor '':irc.example.net 433 * bot :Nickname is already in use'' False
     = Inr \<lparr> prefix = Some ''irc.example.net'', nick = None, user = None, host = None,
             server = Some ''irc.example.net'', command = Some ''err_nicknameinuse'',
             rawCommand = ''433'', commandType = Some Error,
             args = [''*'', ''bot'', ''Nickname is already in use''] \<rparr>
   \<and> command_match ''433 * bot :Nickname is already in use'' = Some ''433''
   \<and> sample_replyFor ''433'' = Some \<lparr> reply_name = ''err_nicknameinuse'', reply_type = Error \<rparr>
   \<and> (\<exists>m. parseMessage sample_replyFor ''JOIN #chan'' False = Inr m
          \<and> rawCommand m = ''JOIN'' \<and> command m = Some ''JOIN'' \<and> commandType m = Some Normal)"
proof -
  have p: "parseMessage sample_replyFor '':irc.example.net 433 * bot :Nickname is already in use'' False
     = Inr \<lparr> prefix = Some ''irc.example.net'', nick = None, user = None, host = None,
             server = Some ''irc.example.net'', command = Some ''err_nicknameinuse'',
             rawCommand = ''433'', commandType = Some Error,
             args = [''*'', ''bot'', ''Nickname is already in use''] \<rparr>"
    by code_simp
  have t: "sample_replyFor ''433'' = Some \<lparr> reply_name = ''err_nicknameinuse'', reply_type = Error \<rparr>"
    by code_simp
  have c: "command_match ''433 * bot :Nickname is already in use'' = Some ''433''"
    by code_simp
  obtain m where q: "parseMessage sample_replyFor ''JOIN #chan'' False = Inr m"
    using parseMessage_returns [of False "''JOIN #chan''" "''JOIN''" sample_replyFor]
    by (auto simp: prefix_match_def command_match_def)
  have r: "command_match ''JOIN #chan'' = Some ''JOIN''"
    by code_simp
  have n: "sample_replyFor ''JOIN'' = None" "Object_prototype ''JOIN'' = None"
    by code_simp+
  from parseMessage_reply_table [OF q] r n
  have j: "rawCommand m = ''JOIN'' \<and> command m = Some ''JOIN'' \<and> commandType m = Some Normal"
    by (simp add: prefix_match_def)
  from parseMessage_reply_table [OF p] p t c q j show ?thesis by auto
qed

section \<open>The long-line splitter (Client._splitLongLines)\<close>

text \<open>
  The \<open>while\<close> loop that looks for a whitespace character before the boundary:
  \<open>scan_back words j\<close> reads \<open>words[j]\<close>, \<open>words[j - 1]\<close>, ... as long as the index
  is positive (\<open>maxLength - offset > 0\<close>) and stops at the first whitespace.  \<open>None\<close>
  means that the loop ran out, with \<open>maxLength - offset = 0\<close>.
\<close>

fun scan_back :: "string \<Rightarrow> nat \<Rightarrow> nat option" where
  "scan_back words 0 = None"
| "scan_back words (Suc j) =
     (if isSpace (words ! Suc j) then Some (Suc j) else scan_back words j)"

text \<open>\<open>cutPos\<close> and \<open>wsLength\<close> of a text that is longer than \<open>maxLength\<close>.\<close>

definition cut_position :: "string \<Rightarrow> nat \<Rightarrow> nat \<times> nat" where
  "cut_position words maxLength =
     (if isSpace (words ! maxLength) then (maxLength, 1)
      else (case scan_back words (maxLength - 1) of
              Some cutPos \<Rightarrow> (cutPos, 1)
            | None \<Rightarrow> (maxLength, 0)))"

lemma scan_back_Some:
  "scan_back words j = Some k \<Longrightarrow> 1 \<le> k \<and> k \<le> j \<and> isSpace (words ! k)"
  by (induction j) (auto split: if_splits)

lemma cut_position_bounds:
  assumes "0 < maxLength"
  shows "1 \<le> fst (cut_position words maxLength)"
    and "fst (cut_position words maxLength) \<le> maxLength"
    and "snd (cut_position words maxLength) \<le> 1"
  using assms scan_back_Some [of words "maxLength - 1"]
  by (auto simp: cut_position_def split: option.splits)

lemma cut_position_space:
  assumes "snd (cut_position words maxLength) \<noteq> 0"
  shows "isSpace (words ! fst (cut_position words maxLength))"
    and "snd (cut_position words maxLength) = 1"
  using assms scan_back_Some [of words "maxLength - 1"]
  by (auto simp: cut_position_def split: option.splits if_splits)

text \<open>
  \<open>_splitLongLines(words, maxLength, destination)\<close>, for a limit that is a natural
  number; \<open>maxLength || 450\<close> replaces the limit 0.  The text is longer than
  \<open>maxLength\<close> where \<open>words[maxLength]\<close> is read, so the character is there.
\<close>

function splitLongLines :: "string \<Rightarrow> nat \<Rightarrow> string list \<Rightarrow> string list" where
  "splitLongLines words maxLength0 destination =
     (let maxLength = (if maxLength0 = 0 then 450 else maxLength0)
      in if length words = 0 then destination
         else if length words \<le> maxLength then destination @ [words]
         else splitLongLines
                (drop (fst (cut_position words maxLength) + snd (cut_position words maxLength)) words)
                maxLength
                (destination @ [take (fst (cut_position words maxLength)) words]))"
  by pat_completeness auto
termination
proof (relation "measure (\<lambda>(words, maxLength0, destination). length words)", goal_cases)
  case 1
  show ?case by simp
next
  case (2 words maxLength0 destination maxLength)
  then have "0 < maxLength" by (simp split: if_splits)
  then have "1 \<le> fst (cut_position words maxLength)" by (rule cut_position_bounds)
  with 2 show ?case by simp
qed

declare splitLongLines.simps [simp del]

text \<open>
  The same recursion, recording with every chunk the value of \<open>wsLength\<close> at the cut
  that ends it: 1 when the cut was made on a whitespace character (which is dropped),
  0 at a hard cut and for the last chunk.
\<close>

function splitLongLines_cuts :: "string \<Rightarrow> nat \<Rightarrow> (string \<times> nat) list" where
  "splitLongLines_cuts words maxLength0 =
     (let maxLength = (if maxLength0 = 0 then 450 else maxLength0)
      in if length words = 0 then []
         else if length words \<le> maxLength then [(words, 0)]
         else (take (fst (cut_position words maxLength)) words, snd (cut_position words maxLength))
              # splitLongLines_cuts
                  (drop (fst (cut_position words maxLength) + snd (cut_position words maxLength)) words)
                  maxLength)"
  by pat_completeness auto
termination
proof (relation "measure (\<lambda>(words, maxLength0). length words)", goal_cases)
  case 1
  show ?case by simp
next
  case (2 words maxLength0 maxLength)
  then have "0 < maxLength" by (simp split: if_splits)
  then have "1 \<le> fst (cut_position words maxLength)" by (rule cut_position_bounds)
  with 2 show ?case by simp
qed

declare splitLongLines_cuts.simps [simp del]

text \<open>Rejoining the chunks in order, with a single space at each cut that was made on
  a whitespace character.\<close>

definition rejoin :: "(string \<times> nat) list \<Rightarrow> string" where
  "rejoin cuts = concat (map (\<lambda>(chunk, wsLength). chunk @ replicate wsLength (CHR '' '')) cuts)"

text \<open>The word sequence of a text: its maximal runs of non-whitespace characters.
  \<open>cur\<close> holds, reversed, the word being read.\<close>

fun words_from :: "string \<Rightarrow> string \<Rightarrow> string list" where
  "words_from cur [] = (if cur = [] then [] else [rev cur])"
| "words_from cur (c # cs) =
     (if isSpace c then (if cur = [] then words_from [] cs else rev cur # words_from [] cs)
      else words_from (c # cur) cs)"

definition word_sequence :: "string \<Rightarrow> string list" where
  "word_sequence s = words_from [] s"

text \<open>Two texts are the same up to whitespace when they differ only in that a whitespace
  character of the first is a space in the second.\<close>

definition same_up_to_space :: "string \<Rightarrow> string \<Rightarrow> bool" where
  "same_up_to_space s t = list_all2 (\<lambda>a b. b = a \<or> (isSpace a \<and> b = CHR '' '')) s t"

subsection \<open>Properties of the splitter\<close>

lemma splitLongLines_cuts_chunks:
  "splitLongLines words n dest = dest @ map fst (splitLongLines_cuts words n)"
proof (induction words n arbitrary: dest rule: splitLongLines_cuts.induct)
  case (1 words maxLength0)
  define maxLength where "maxLength = (if maxLength0 = 0 then 450 else maxLength0)"
  show ?case
  proof (cases "length words = 0 \<or> length words \<le> maxLength")
    case True
    then show ?thesis
      by (subst splitLongLines.simps, subst splitLongLines_cuts.simps)
         (auto simp: Let_def maxLength_def)
  next
    case False
    then have ih: "\<And>dest. splitLongLines
                (drop (fst (cut_position words maxLength) + snd (cut_position words maxLength)) words)
                maxLength dest
           = dest @ map fst (splitLongLines_cuts
                (drop (fst (cut_position words maxLength) + snd (cut_position words maxLength)) words)
                maxLength)"
      using 1 [of maxLength] by (simp add: maxLength_def)
    from False show ?thesis
      by (subst splitLongLines.simps, subst splitLongLines_cuts.simps)
         (simp add: Let_def maxLength_def [symmetric] ih)
  qed
qed

lemma words_from_same:
  "list_all2 (\<lambda>a b. b = a \<or> (isSpace a \<and> b = CHR '' '')) s t
   \<Longrightarrow> words_from cur s = words_from cur t"
proof (induction s t arbitrary: cur rule: list_all2_induct)
  case Nil
  show ?case by simp
next
  case (Cons a s b t)
  have sp: "isSpace (CHR '' '')" by (simp add: isSpace_def)
  from Cons show ?case using sp by auto
qed

lemma same_up_to_space_words:
  "same_up_to_space s t \<Longrightarrow> word_sequence s = word_sequence t"
  unfolding same_up_to_space_def word_sequence_def by (rule words_from_same)

lemma same_up_to_space_refl: "same_up_to_space s s"
  by (simp add: same_up_to_space_def list_all2_same)

lemma same_up_to_space_append:
  "same_up_to_space a b \<Longrightarrow> same_up_to_space c d \<Longrightarrow> same_up_to_space (a @ c) (b @ d)"
  unfolding same_up_to_space_def by (rule list_all2_appendI)

lemma rejoin_Cons: "rejoin ((chunk, w) # cuts) = chunk @ replicate w (CHR '' '') @ rejoin cuts"
  by (simp add: rejoin_def)

lemma splitLongLines_cuts_rejoin:
  "same_up_to_space words (rejoin (splitLongLines_cuts words n))"
proof (induction words n rule: splitLongLines_cuts.induct)
  case (1 words maxLength0)
  define maxLength where "maxLength = (if maxLength0 = 0 then 450 else maxLength0)"
  define c where "c = fst (cut_position words maxLength)"
  define w where "w = snd (cut_position words maxLength)"
  have pos: "0 < maxLength" by (simp add: maxLength_def)
  show ?case
  proof (cases "length words = 0 \<or> length words \<le> maxLength")
    case True
    then show ?thesis
      by (subst splitLongLines_cuts.simps)
         (auto simp: Let_def maxLength_def rejoin_def same_up_to_space_refl)
  next
    case False
    then have ih: "same_up_to_space (drop (c + w) words)
                     (rejoin (splitLongLines_cuts (drop (c + w) words) maxLength))"
      using 1 [of maxLength] by (simp add: maxLength_def c_def w_def)
    have cuts: "splitLongLines_cuts words maxLength0
                = (take c words, w) # splitLongLines_cuts (drop (c + w) words) maxLength"
      using False
      by (subst splitLongLines_cuts.simps) (simp add: Let_def maxLength_def [symmetric] c_def w_def)
    have cle: "c \<le> maxLength" unfolding c_def using pos by (rule cut_position_bounds)
    with False have clt: "c < length words" by simp
    have mid: "same_up_to_space (take w (drop c words)) (replicate w (CHR '' ''))"
    proof (cases "w = 0")
      case True
      then show ?thesis by (simp add: same_up_to_space_def)
    next
      case False
      then have sp: "isSpace (words ! c)" and w1: "w = 1"
        using cut_position_space [of words maxLength] by (simp_all add: c_def w_def)
      have "take 1 (drop c words) = [words ! c]"
        using clt by (simp add: take_Suc_conv_app_nth Cons_nth_drop_Suc [symmetric])
      with sp w1 show ?thesis by (simp add: same_up_to_space_def)
    qed
    have "words = take c words @ take w (drop c words) @ drop (c + w) words"
      by (metis add.commute append_take_drop_id drop_drop)
    moreover have "same_up_to_space (take c words @ take w (drop c words) @ drop (c + w) words)
            (take c words @ replicate w (CHR '' '')
               @ rejoin (splitLongLines_cuts (drop (c + w) words) maxLength))"
      by (intro same_up_to_space_append same_up_to_space_refl mid ih)
    ultimately show ?thesis
      by (simp add: cuts rejoin_Cons)
  qed
qed

lemma splitLongLines_cuts_length:
  "0 < n \<Longrightarrow> (chunk, w) \<in> set (splitLongLines_cuts words n) \<Longrightarrow> length chunk \<le> n \<and> 0 < length chunk"
proof (induction words n rule: splitLongLines_cuts.induct)
  case (1 words maxLength0)
  from 1(2) have ml: "(if maxLength0 = 0 then 450 else maxLength0) = maxLength0" by simp
  define c where "c = fst (cut_position words maxLength0)"
  define ws where "ws = snd (cut_position words maxLength0)"
  show ?case
  proof (cases "length words = 0 \<or> length words \<le> maxLength0")
    case True
    with 1(3) show ?thesis
      by (subst (asm) splitLongLines_cuts.simps) (auto simp: Let_def ml split: if_splits)
  next
    case False
    have cuts: "splitLongLines_cuts words maxLength0
                = (take c words, ws) # splitLongLines_cuts (drop (c + ws) words) maxLength0"
      using False
      by (subst splitLongLines_cuts.simps) (simp add: Let_def ml c_def ws_def)
    have cle: "c \<le> maxLength0" "1 \<le> c"
      unfolding c_def using 1(2) by (rule cut_position_bounds)+
    show ?thesis
    proof (cases "(chunk, w) = (take c words, ws)")
      case True
      with cle False show ?thesis by auto
    next
      case neq: False
      with 1(3) cuts have "(chunk, w) \<in> set (splitLongLines_cuts (drop (c + ws) words) maxLength0)"
        by auto
      with 1(1) [of maxLength0] False 1(2) show ?thesis
        by (simp add: ml c_def ws_def)
    qed
  qed
qed

text \<open>
  Claim C4.  For every text and every positive limit, every chunk the splitter produces
  is at most \<open>limit\<close> long; the chunks are the first components of the recorded cuts;
  and rejoining them in order, with a single space at each cut made on a whitespace
  character, gives the text back up to the identity of the whitespace characters cut
  on, hence with the same word sequence.
\<close>

theorem splitLongLines_chunks_and_rejoin:
  assumes "0 < limit"
  shows "(\<forall>chunk \<in> set (splitLongLines words limit []). length chunk \<le> limit)
         \<and> splitLongLines words limit [] = map fst (splitLongLines_cuts words limit)
         \<and> same_up_to_space words (rejoin (splitLongLines_cuts words limit))
         \<and> word_sequence (rejoin (splitLongLines_cuts words limit)) = word_sequence words"
proof -
  have chunks: "splitLongLines words limit [] = map fst (splitLongLines_cuts words limit)"
    using splitLongLines_cuts_chunks [of words limit "[]"] by simp
  have len: "\<forall>chunk \<in> set (splitLongLines words limit []). length chunk \<le> limit"
    using splitLongLines_cuts_length [OF assms, of _ _ words] by (auto simp: chunks)
  have same: "same_up_to_space words (rejoin (splitLongLines_cuts words limit))"
    by (rule splitLongLines_cuts_rejoin)
  from same have "word_sequence words = word_sequence (rejoin (splitLongLines_cuts words limit))"
    by (rule same_up_to_space_words)
  with chunks len same show ?thesis by simp
qed

text \<open>The theorem of claim C4 at a text cut four times on a space, with limit 7.\<close>

theorem splitLongLines_chunks_and_rejoin_witness:
  "splitLongLines ''hello big world and more'' 7 [] = [''hello'', ''big'', ''world'', ''and'', ''more'']
   \<and> list_all (\<lambda>chunk. length chunk \<le> 7) (splitLongLines ''hello big world and more'' 7 [])
   \<and> word_sequence (rejoin (splitLongLines_cuts ''hello big world and more'' 7))
       = [''hello'', ''big'', ''world'', ''and'', ''more'']"
proof -
  have pos: "0 < (7 :: nat)" by simp
  have a: "splitLongLines ''hello big world and more'' 7 []
           = [''hello'', ''big'', ''world'', ''and'', ''more'']"
    by code_simp
  have b: "word_sequence ''hello big world and more'' = [''hello'', ''big'', ''world'', ''and'', ''more'']"
    by code_simp
  note t = splitLongLines_chunks_and_rejoin [OF pos, of "''hello big world and more''"]
  from t [THEN conjunct1] have c: "list_all (\<lambda>chunk. length chunk \<le> 7) (splitLongLines ''hello big world and more'' 7 [])"
    by (simp only: list_all_iff)
  have d: "word_sequence (rejoin (splitLongLines_cuts ''hello big world and more'' 7))
       = [''hello'', ''big'', ''world'', ''and'', ''more'']"
    by (rule trans [OF t [THEN conjunct2, THEN conjunct2, THEN conjunct2] b])
  from a c d show ?thesis by (intro conjI)
qed

section \<open>The cycling ping timer (CyclingPingTimer)\<close>

text \<open>
  The timers of the runtime are part of the state: \<open>setTimeout\<close> adds a pending timer
  with a fresh handle and its deadline, \<open>clearTimeout\<close> removes the timer of a handle,
  and the passing of time fires the pending timers whose deadline is reached, the
  earliest first.  A field of the object holds a handle or \<open>undefined\<close>.  Time is counted
  in milliseconds.
\<close>

datatype timer_callback = Looping | PingWait

datatype timer_event = wantPing | pingTimeout

record ping_timer =
  started :: bool
  loopingTimeout :: "nat option"
  pingWaitTimeout :: "nat option"
  now :: nat
  next_handle :: nat
  pending :: "(nat \<times> nat \<times> timer_callback) list"
  emits :: "(nat \<times> timer_event) list"

definition new_ping_timer :: "nat \<Rightarrow> ping_timer" where
  "new_ping_timer t =
     \<lparr> started = False, loopingTimeout = None, pingWaitTimeout = None,
       now = t, next_handle = 0, pending = [], emits = [] \<rparr>"

text \<open>The delay that the runtime gives a timer: a delay below 1 or above
  \<open>2147483647\<close> (the largest 32-bit signed integer) is replaced by 1.\<close>

definition TIMEOUT_MAX :: nat where
  "TIMEOUT_MAX = 2147483647"

definition timeout_delay :: "nat \<Rightarrow> nat" where
  "timeout_delay delay = (if 1 \<le> delay \<and> delay \<le> TIMEOUT_MAX then delay else 1)"

definition setTimeout :: "timer_callback \<Rightarrow> nat \<Rightarrow> ping_timer \<Rightarrow> ping_timer" where
  "setTimeout cb delay w =
     w\<lparr> pending := pending w @ [(next_handle w, now w + timeout_delay delay, cb)],
        next_handle := next_handle w + 1 \<rparr>"

definition clearTimeout :: "nat option \<Rightarrow> ping_timer \<Rightarrow> ping_timer" where
  "clearTimeout h w =
     (case h of
        None \<Rightarrow> w
      | Some i \<Rightarrow> w\<lparr> pending := filter (\<lambda>p. fst p \<noteq> i) (pending w) \<rparr>)"

definition emit_timer :: "timer_event \<Rightarrow> ping_timer \<Rightarrow> ping_timer" where
  "emit_timer e w = w\<lparr> emits := emits w @ [(now w, e)] \<rparr>"

text \<open>\<open>stop()\<close>.\<close>

definition stop :: "ping_timer \<Rightarrow> ping_timer" where
  "stop w =
     (if \<not> started w then w
      else (clearTimeout (pingWaitTimeout w) (clearTimeout (loopingTimeout w) (w\<lparr> started := False \<rparr>)))
             \<lparr> loopingTimeout := None, pingWaitTimeout := None \<rparr>)"

text \<open>\<open>start()\<close>; \<open>silence\<close> is \<open>millisecondsOfSilenceBeforePingSent\<close>.\<close>

definition start :: "nat \<Rightarrow> ping_timer \<Rightarrow> ping_timer" where
  "start silence w =
     (if started w then w
      else (setTimeout Looping silence (w\<lparr> started := True \<rparr>))
             \<lparr> loopingTimeout := Some (next_handle w) \<rparr>)"

text \<open>\<open>notifyOfActivity()\<close>.\<close>

definition notifyOfActivity :: "nat \<Rightarrow> ping_timer \<Rightarrow> ping_timer" where
  "notifyOfActivity silence w = (if started w then start silence (stop w) else w)"

text \<open>The listener of \<open>wantPing\<close> that the constructor registers; \<open>wait\<close> is
  \<open>millisecondsBeforePingTimeout\<close>.\<close>

definition on_wantPing :: "nat \<Rightarrow> ping_timer \<Rightarrow> ping_timer" where
  "on_wantPing wait w = (setTimeout PingWait wait w)\<lparr> pingWaitTimeout := Some (next_handle w) \<rparr>"

text \<open>The callback of the looping timeout: it forgets its handle and emits \<open>wantPing\<close>,
  which runs the listener.\<close>

definition looping_callback :: "nat \<Rightarrow> ping_timer \<Rightarrow> ping_timer" where
  "looping_callback wait w = on_wantPing wait (emit_timer wantPing (w\<lparr> loopingTimeout := None \<rparr>))"

text \<open>The callback of the ping-wait timeout.\<close>

definition pingWait_callback :: "ping_timer \<Rightarrow> ping_timer" where
  "pingWait_callback w = emit_timer pingTimeout (stop w)"

text \<open>Firing a pending timer: it leaves the pending timers, the clock is at its
  deadline (or later), and its callback runs.\<close>

definition fire :: "nat \<Rightarrow> nat \<times> nat \<times> timer_callback \<Rightarrow> ping_timer \<Rightarrow> ping_timer" where
  "fire wait p w =
     (let w1 = w\<lparr> pending := filter (\<lambda>q. fst q \<noteq> fst p) (pending w),
                  now := max (now w) (fst (snd p)) \<rparr>
      in case snd (snd p) of
           Looping \<Rightarrow> looping_callback wait w1
         | PingWait \<Rightarrow> pingWait_callback w1)"

text \<open>The pending timer to fire next when the clock moves to \<open>t\<close>: among those with a
  deadline up to \<open>t\<close>, the one with the least deadline, the first set among equals.\<close>

definition due :: "nat \<Rightarrow> (nat \<times> nat \<times> timer_callback) list \<Rightarrow> (nat \<times> nat \<times> timer_callback) option" where
  "due t ps =
     (case filter (\<lambda>p. fst (snd p) \<le> t) ps of
        [] \<Rightarrow> None
      | q # qs \<Rightarrow> Some (fold (\<lambda>p best. if fst (snd p) < fst (snd best) then p else best) qs q))"

definition timer_weight :: "(nat \<times> nat \<times> timer_callback) list \<Rightarrow> nat" where
  "timer_weight ps = sum_list (map (\<lambda>p. case snd (snd p) of Looping \<Rightarrow> 2 | PingWait \<Rightarrow> 1) ps)"

lemma fold_best_mem:
  "fold (\<lambda>p best. if fst (snd p) < fst (snd best) then p else best) qs q \<in> set (q # qs)"
  by (induction qs arbitrary: q) (auto split: if_splits)

lemma due_mem: "due t ps = Some p \<Longrightarrow> p \<in> set ps"
proof -
  assume a: "due t ps = Some p"
  then obtain q qs where f: "filter (\<lambda>p. fst (snd p) \<le> t) ps = q # qs"
    and p: "p = fold (\<lambda>p best. if fst (snd p) < fst (snd best) then p else best) qs q"
    by (auto simp: due_def split: list.splits)
  have "p \<in> set (q # qs)" unfolding p by (rule fold_best_mem)
  then have "p \<in> set (filter (\<lambda>p. fst (snd p) \<le> t) ps)" using f by simp
  then show ?thesis by simp
qed

lemma timer_weight_filter: "timer_weight (filter P ps) \<le> timer_weight ps"
  by (induction ps) (auto simp: timer_weight_def)

lemma timer_weight_remove:
  "p \<in> set ps \<Longrightarrow>
   timer_weight (filter (\<lambda>q. fst q \<noteq> fst p) ps)
   + (case snd (snd p) of Looping \<Rightarrow> 2 | PingWait \<Rightarrow> 1) \<le> timer_weight ps"
proof (induction ps)
  case Nil
  then show ?case by simp
next
  case (Cons a ps)
  have le: "timer_weight (filter (\<lambda>q. fst q \<noteq> fst p) ps) \<le> timer_weight ps"
    by (rule timer_weight_filter)
  show ?case
  proof (cases "a = p")
    case True
    with le show ?thesis by (simp add: timer_weight_def)
  next
    case False
    with Cons have "timer_weight (filter (\<lambda>q. fst q \<noteq> fst p) ps)
        + (case snd (snd p) of Looping \<Rightarrow> 2 | PingWait \<Rightarrow> 1) \<le> timer_weight ps"
      by simp
    then show ?thesis by (simp add: timer_weight_def)
  qed
qed

lemma timer_weight_fire:
  assumes "p \<in> set (pending w)"
  shows "timer_weight (pending (fire wait p w)) < timer_weight (pending w)"
proof -
  note r = timer_weight_remove [OF assms]
  show ?thesis
  proof (cases "snd (snd p)")
    case Looping
    with r show ?thesis
      by (simp add: fire_def Let_def looping_callback_def on_wantPing_def setTimeout_def
          emit_timer_def timer_weight_def)
  next
    case PingWait
    have "timer_weight (pending (stop v)) \<le> timer_weight (pending v)" for v
      using timer_weight_filter
      by (auto simp: stop_def clearTimeout_def split: option.splits intro: order_trans)
    from this [of "w\<lparr> pending := filter (\<lambda>q. fst q \<noteq> fst p) (pending w),
                      now := max (now w) (fst (snd p)) \<rparr>"] PingWait r
    show ?thesis
      by (simp add: fire_def Let_def pingWait_callback_def emit_timer_def)
  qed
qed

text \<open>Time passes until the clock shows \<open>t\<close>: the due timers fire one after the other,
  those that a callback sets included.\<close>

function run_until :: "nat \<Rightarrow> nat \<Rightarrow> ping_timer \<Rightarrow> ping_timer" where
  "run_until wait t w =
     (case due t (pending w) of
        None \<Rightarrow> w\<lparr> now := max (now w) t \<rparr>
      | Some p \<Rightarrow> run_until wait t (fire wait p w))"
  by pat_completeness auto
termination
proof (relation "measure (\<lambda>(wait, t, w). timer_weight (pending w))", goal_cases)
  case 1
  show ?case by simp
next
  case (2 wait t w p)
  then have "p \<in> set (pending w)" by (rule due_mem)
  then show ?case by (simp add: timer_weight_fire)
qed

declare run_until.simps [simp del]

text \<open>Time passes for \<open>dt\<close> milliseconds.\<close>

definition advance :: "nat \<Rightarrow> nat \<Rightarrow> ping_timer \<Rightarrow> ping_timer" where
  "advance wait dt w = run_until wait (now w + dt) w"

text \<open>Server activity after each of the given gaps of silence.\<close>

fun activity :: "nat \<Rightarrow> nat \<Rightarrow> nat list \<Rightarrow> ping_timer \<Rightarrow> ping_timer" where
  "activity silence wait [] w = w"
| "activity silence wait (gap # gaps) w =
     activity silence wait gaps (notifyOfActivity silence (advance wait gap w))"

text \<open>The states a timer reaches from its construction by calls of its methods and by the
  passing of time.\<close>

inductive reachable_timer :: "nat \<Rightarrow> nat \<Rightarrow> ping_timer \<Rightarrow> bool" for silence wait where
  constructed: "reachable_timer silence wait (new_ping_timer t)"
| started: "reachable_timer silence wait w \<Longrightarrow> reachable_timer silence wait (start silence w)"
| stopped: "reachable_timer silence wait w \<Longrightarrow> reachable_timer silence wait (stop w)"
| notified: "reachable_timer silence wait w \<Longrightarrow> reachable_timer silence wait (notifyOfActivity silence w)"
| advanced: "reachable_timer silence wait w \<Longrightarrow> reachable_timer silence wait (advance wait dt w)"

text \<open>The number of armed timers of each kind.\<close>

definition armed :: "timer_callback \<Rightarrow> ping_timer \<Rightarrow> nat" where
  "armed cb w = length (filter (\<lambda>p. snd (snd p) = cb) (pending w))"

subsection \<open>Properties of the ping timer\<close>

text \<open>The three shapes of a timer: halted, waiting for silence to end at \<open>d\<close>, and
  waiting for the answer to a ping until \<open>d\<close>.\<close>

definition halted :: "ping_timer \<Rightarrow> bool" where
  "halted w = (\<not> started w \<and> loopingTimeout w = None \<and> pingWaitTimeout w = None \<and> pending w = [])"

definition idle_until :: "nat \<Rightarrow> ping_timer \<Rightarrow> bool" where
  "idle_until d w =
     (started w \<and> pingWaitTimeout w = None \<and> now w \<le> d
      \<and> (\<exists>h. loopingTimeout w = Some h \<and> pending w = [(h, d, Looping)]))"

definition pinging_until :: "nat \<Rightarrow> ping_timer \<Rightarrow> bool" where
  "pinging_until d w =
     (started w \<and> loopingTimeout w = None \<and> now w \<le> d
      \<and> (\<exists>h. pingWaitTimeout w = Some h \<and> pending w = [(h, d, PingWait)]))"

lemma halted_new: "halted (new_ping_timer t)"
  by (simp add: halted_def new_ping_timer_def)

lemma start_halted:
  assumes "halted w"
  shows "idle_until (now w + timeout_delay s) (start s w)" and "emits (start s w) = emits w"
    and "now (start s w) = now w"
  using assms by (auto simp: halted_def idle_until_def start_def setTimeout_def)

lemma start_started: "started w \<Longrightarrow> start s w = w"
  by (simp add: start_def)

lemma stop_halted: "halted w \<Longrightarrow> stop w = w"
  by (simp add: halted_def stop_def)

lemma stop_idle:
  assumes "idle_until d w"
  shows "halted (stop w)" and "emits (stop w) = emits w" and "now (stop w) = now w"
  using assms by (auto simp: halted_def idle_until_def stop_def clearTimeout_def)

lemma stop_pinging:
  assumes "pinging_until d w"
  shows "halted (stop w)" and "emits (stop w) = emits w" and "now (stop w) = now w"
  using assms by (auto simp: halted_def pinging_until_def stop_def clearTimeout_def)

lemma notify_halted: "halted w \<Longrightarrow> notifyOfActivity s w = w"
  by (simp add: halted_def notifyOfActivity_def)

lemma notify_idle:
  assumes "idle_until d w"
  shows "idle_until (now w + timeout_delay s) (notifyOfActivity s w)"
    and "emits (notifyOfActivity s w) = emits w"
    and "now (notifyOfActivity s w) = now w"
proof -
  have st: "started w" using assms by (simp add: idle_until_def)
  note h = stop_idle [OF assms]
  from start_halted [OF h(1), of s] h st
  show "idle_until (now w + timeout_delay s) (notifyOfActivity s w)"
    and "emits (notifyOfActivity s w) = emits w"
    and "now (notifyOfActivity s w) = now w"
    by (simp_all add: notifyOfActivity_def)
qed

lemma notify_pinging:
  assumes "pinging_until d w"
  shows "idle_until (now w + timeout_delay s) (notifyOfActivity s w)"
    and "emits (notifyOfActivity s w) = emits w"
    and "now (notifyOfActivity s w) = now w"
proof -
  have st: "started w" using assms by (simp add: pinging_until_def)
  note h = stop_pinging [OF assms]
  from start_halted [OF h(1), of s] h st
  show "idle_until (now w + timeout_delay s) (notifyOfActivity s w)"
    and "emits (notifyOfActivity s w) = emits w"
    and "now (notifyOfActivity s w) = now w"
    by (simp_all add: notifyOfActivity_def)
qed

lemma due_Nil: "due t [] = None"
  by (simp add: due_def)

lemma due_single: "due t [(h, d, k)] = (if d \<le> t then Some (h, d, k) else None)"
  by (simp add: due_def)

lemma run_until_halted: "halted w \<Longrightarrow> run_until wait t w = w\<lparr> now := max (now w) t \<rparr>"
  by (subst run_until.simps) (simp add: halted_def due_Nil)

lemma run_until_idle_early:
  "idle_until d w \<Longrightarrow> t < d \<Longrightarrow> run_until wait t w = w\<lparr> now := max (now w) t \<rparr>"
  by (subst run_until.simps) (auto simp: idle_until_def due_single)

lemma run_until_pinging_early:
  "pinging_until d w \<Longrightarrow> t < d \<Longrightarrow> run_until wait t w = w\<lparr> now := max (now w) t \<rparr>"
  by (subst run_until.simps) (auto simp: pinging_until_def due_single)

lemma fire_idle:
  assumes "idle_until d w" and "loopingTimeout w = Some h"
  shows "pinging_until (d + timeout_delay wait) (fire wait (h, d, Looping) w)"
    and "emits (fire wait (h, d, Looping) w) = emits w @ [(d, wantPing)]"
    and "now (fire wait (h, d, Looping) w) = d"
  using assms
  by (auto simp: idle_until_def pinging_until_def fire_def Let_def looping_callback_def
      on_wantPing_def setTimeout_def emit_timer_def max_def)

lemma fire_pinging:
  assumes "pinging_until d w" and "pingWaitTimeout w = Some h"
  shows "halted (fire wait (h, d, PingWait) w)"
    and "emits (fire wait (h, d, PingWait) w) = emits w @ [(d, pingTimeout)]"
    and "now (fire wait (h, d, PingWait) w) = d"
  using assms
  by (auto simp: pinging_until_def halted_def fire_def Let_def pingWait_callback_def
      stop_def clearTimeout_def emit_timer_def max_def)

lemma run_until_idle_due:
  assumes "idle_until d w" and "d \<le> t"
  shows "\<exists>v. run_until wait t w = run_until wait t v \<and> pinging_until (d + timeout_delay wait) v
             \<and> emits v = emits w @ [(d, wantPing)] \<and> now v = d"
proof -
  from assms(1) obtain h where h: "loopingTimeout w = Some h" "pending w = [(h, d, Looping)]"
    by (auto simp: idle_until_def)
  have "run_until wait t w = run_until wait t (fire wait (h, d, Looping) w)"
    using h assms(2) by (subst run_until.simps) (simp add: due_single)
  with fire_idle [OF assms(1) h(1), of wait] show ?thesis by blast
qed

lemma run_until_pinging_due:
  assumes "pinging_until d w" and "d \<le> t"
  shows "halted (run_until wait t w)"
    and "emits (run_until wait t w) = emits w @ [(d, pingTimeout)]"
    and "now (run_until wait t w) = t"
proof -
  from assms(1) obtain h where h: "pingWaitTimeout w = Some h" "pending w = [(h, d, PingWait)]"
    by (auto simp: pinging_until_def)
  have r: "run_until wait t w = run_until wait t (fire wait (h, d, PingWait) w)"
    using h assms(2) by (subst run_until.simps) (simp add: due_single)
  note f = fire_pinging [OF assms(1) h(1), of wait]
  have r2: "run_until wait t w = (fire wait (h, d, PingWait) w)\<lparr> now := max d t \<rparr>"
    using r run_until_halted [OF f(1), of wait t] f(3) by simp
  show "halted (run_until wait t w)" using f(1) by (simp add: r2 halted_def)
  show "emits (run_until wait t w) = emits w @ [(d, pingTimeout)]" using f(2) by (simp add: r2)
  show "now (run_until wait t w) = t" using assms(2) by (simp add: r2 max_def)
qed

text \<open>While every gap of silence is shorter than the idle interval, the timer stays idle
  and nothing is emitted.\<close>

lemma activity_idle:
  assumes "idle_until (now w + timeout_delay s) w" and "list_all (\<lambda>g. g < timeout_delay s) gaps"
  shows "idle_until (now (activity s wait gaps w) + timeout_delay s) (activity s wait gaps w)
         \<and> emits (activity s wait gaps w) = emits w"
  using assms
proof (induction gaps arbitrary: w)
  case Nil
  then show ?case by simp
next
  case (Cons g gaps)
  then have g: "g < timeout_delay s" by simp
  define v where "v = advance wait g w"
  have v: "v = w\<lparr> now := now w + g \<rparr>"
    unfolding v_def advance_def
    using run_until_idle_early [OF Cons.prems(1), of "now w + g" wait] g by (simp add: max_def)
  have iv: "idle_until (now w + timeout_delay s) v"
    using Cons.prems(1) g by (simp add: v idle_until_def)
  note n = notify_idle [OF iv, of s]
  have "idle_until (now (notifyOfActivity s v) + timeout_delay s) (notifyOfActivity s v)"
    using n by simp
  from Cons.IH [OF this] Cons.prems(2) n(2) v
  show ?case by (simp add: v_def)
qed

text \<open>In every reachable state the timer has one of the three shapes.\<close>

lemma run_until_shape:
  assumes "halted w \<or> (\<exists>d. idle_until d w) \<or> (\<exists>d. pinging_until d w)"
  shows "halted (run_until wait t w) \<or> (\<exists>d. idle_until d (run_until wait t w))
         \<or> (\<exists>d. pinging_until d (run_until wait t w))"
proof -
  have keep_idle: "idle_until d v \<Longrightarrow> t < d \<Longrightarrow> idle_until d (v\<lparr> now := max (now v) t \<rparr>)" for d v
    by (auto simp: idle_until_def)
  have keep_ping: "pinging_until d v \<Longrightarrow> t < d \<Longrightarrow> pinging_until d (v\<lparr> now := max (now v) t \<rparr>)" for d v
    by (auto simp: pinging_until_def)
  have ping: "pinging_until d v \<Longrightarrow> halted (run_until wait t v) \<or> pinging_until d (run_until wait t v)" for d v
    using run_until_pinging_due(1) [of d v t wait] run_until_pinging_early [of d v t wait] keep_ping [of d v]
    by (cases "d \<le> t") auto
  from assms consider "halted w" | d where "idle_until d w" | d where "pinging_until d w"
    by blast
  then show ?thesis
  proof cases
    case 1
    then show ?thesis by (simp add: run_until_halted halted_def)
  next
    case 2
    show ?thesis
    proof (cases "d \<le> t")
      case True
      from run_until_idle_due [OF 2 True, of wait] obtain v
        where "run_until wait t w = run_until wait t v" "pinging_until (d + timeout_delay wait) v"
        by blast
      with ping [of "d + timeout_delay wait" v] show ?thesis by auto
    next
      case False
      with 2 run_until_idle_early [of d w t wait] keep_idle [of d w] show ?thesis by auto
    qed
  next
    case 3
    with ping show ?thesis by blast
  qed
qed

lemma reachable_timer_shape:
  "reachable_timer s wait w \<Longrightarrow>
   halted w \<or> (\<exists>d. idle_until d w) \<or> (\<exists>d. pinging_until d w)"
proof (induction rule: reachable_timer.induct)
  case (constructed t)
  then show ?case by (simp add: halted_new)
next
  case (started w)
  then show ?case
    using start_halted(1) [of w s] by (auto simp: start_started idle_until_def pinging_until_def)
next
  case (stopped w)
  then show ?case
    by (metis stop_halted stop_idle(1) stop_pinging(1))
next
  case (notified w)
  then show ?case
    by (metis notify_halted notify_idle(1) notify_pinging(1))
next
  case (advanced w dt)
  from run_until_shape [OF advanced.IH] show ?case by (simp add: advance_def)
qed

lemma reachable_timer_activity:
  "reachable_timer s wait w \<Longrightarrow> reachable_timer s wait (activity s wait gaps w)"
proof (induction gaps arbitrary: w)
  case Nil
  then show ?case by simp
next
  case (Cons g gaps)
  have "reachable_timer s wait (notifyOfActivity s (advance wait g w))"
    by (intro reachable_timer.notified reachable_timer.advanced Cons.prems)
  from Cons.IH [OF this] show ?case by simp
qed

lemma armed_shape:
  assumes "halted w \<or> (\<exists>d. idle_until d w) \<or> (\<exists>d. pinging_until d w)"
  shows "armed Looping w + armed PingWait w \<le> 1"
  using assms by (auto simp: armed_def halted_def idle_until_def pinging_until_def)

text \<open>
  Claim C5 fails for an idle interval above \<open>2147483647\<close> ms: the runtime arms the timer
  with a delay of 1 ms, so a timer started at time 0 with an idle interval of
  \<open>2147483648\<close> ms emits \<open>wantPing\<close> after 1 ms of silence.
\<close>

theorem ping_timer_overflow_counterexample:
  "(1 :: nat) < 2147483648
   \<and> emits (advance 8000 1 (start 2147483648 (new_ping_timer 0))) = [(1, wantPing)]"
  by (simp add: start_def new_ping_timer_def setTimeout_def timeout_delay_def TIMEOUT_MAX_def
      advance_def run_until.simps due_def fire_def looping_callback_def on_wantPing_def
      emit_timer_def)

text \<open>
  Claim C5 as amended: for an idle and a wait interval of 1 to \<open>2147483647\<close> ms.  Let a
  timer be started in a reachable state in which it is not started, and let
  \<open>notifyOfActivity()\<close> be called after gaps of silence that are each shorter than the
  idle interval.  Then nothing has been emitted, and nothing is while the silence that
  follows is shorter than the idle interval; once it is as long, exactly one \<open>wantPing\<close>
  has been emitted; once it is as long as the idle and the wait interval together,
  exactly one \<open>pingTimeout\<close> has followed, at the wait interval after the \<open>wantPing\<close>,
  and nothing follows it; \<open>stop()\<close> after the \<open>wantPing\<close> and before the wait interval
  has passed leaves the \<open>pingTimeout\<close> out for good; and in no reachable state is more
  than one timer armed.
\<close>

theorem ping_timer_state_law:
  assumes reach: "reachable_timer silence wait w"
    and stopped: "\<not> started w"
    and silence: "1 \<le> silence" "silence \<le> TIMEOUT_MAX"
    and wait: "1 \<le> wait" "wait \<le> TIMEOUT_MAX"
    and gaps: "list_all (\<lambda>g. g < silence) gaps"
    and w1: "w1 = activity silence wait gaps (start silence w)"
  shows "emits w1 = emits w
    \<and> (\<forall>d. d < silence \<longrightarrow> emits (advance wait d w1) = emits w)
    \<and> (\<forall>d. silence \<le> d \<and> d < silence + wait \<longrightarrow>
          emits (advance wait d w1) = emits w @ [(now w1 + silence, wantPing)])
    \<and> (\<forall>d. silence + wait \<le> d \<longrightarrow>
          emits (advance wait d w1)
          = emits w @ [(now w1 + silence, wantPing), (now w1 + silence + wait, pingTimeout)])
    \<and> (\<forall>d d'. silence \<le> d \<and> d < silence + wait \<longrightarrow>
          emits (advance wait d' (stop (advance wait d w1)))
          = emits w @ [(now w1 + silence, wantPing)])
    \<and> (\<forall>v. reachable_timer silence wait v \<longrightarrow> armed Looping v + armed PingWait v \<le> 1)"
proof -
  have ts: "timeout_delay silence = silence"
    using silence by (simp add: timeout_delay_def)
  have tw: "timeout_delay wait = wait"
    using wait by (simp add: timeout_delay_def)
  have hw: "halted w"
    using reachable_timer_shape [OF reach] stopped
    by (auto simp: idle_until_def pinging_until_def)
  note s = start_halted [OF hw, of silence]
  have "idle_until (now (start silence w) + timeout_delay silence) (start silence w)"
    using s by simp
  from activity_idle [OF this, of gaps wait] gaps
  have idle: "idle_until (now w1 + silence) w1" and e1: "emits w1 = emits w"
    using s(2) by (simp_all add: w1 ts)
  have a: "\<forall>d. d < silence \<longrightarrow> emits (advance wait d w1) = emits w"
    using run_until_idle_early [OF idle, of _ wait] e1 by (simp add: advance_def)
  have fired: "\<exists>v. advance wait d w1 = run_until wait (now w1 + d) v
                 \<and> pinging_until (now w1 + silence + wait) v
                 \<and> emits v = emits w @ [(now w1 + silence, wantPing)]"
    if "silence \<le> d" for d
    using run_until_idle_due [OF idle, of "now w1 + d" wait] that e1
    by (auto simp: advance_def tw)
  have after_ping: "emits (advance wait d w1) = emits w @ [(now w1 + silence, wantPing)]
                    \<and> pinging_until (now w1 + silence + wait) (advance wait d w1)"
    if "silence \<le> d" "d < silence + wait" for d
  proof -
    from fired [OF that(1)] obtain v where v: "advance wait d w1 = run_until wait (now w1 + d) v"
      "pinging_until (now w1 + silence + wait) v"
      "emits v = emits w @ [(now w1 + silence, wantPing)]" by blast
    have "run_until wait (now w1 + d) v = v\<lparr> now := max (now v) (now w1 + d) \<rparr>"
      using run_until_pinging_early [OF v(2), of "now w1 + d" wait] that(2) by simp
    with v that(2) show ?thesis by (simp add: pinging_until_def)
  qed
  have b: "\<forall>d. silence \<le> d \<and> d < silence + wait \<longrightarrow>
          emits (advance wait d w1) = emits w @ [(now w1 + silence, wantPing)]"
    using after_ping by blast
  have c: "\<forall>d. silence + wait \<le> d \<longrightarrow>
          emits (advance wait d w1)
          = emits w @ [(now w1 + silence, wantPing), (now w1 + silence + wait, pingTimeout)]"
  proof (intro allI impI)
    fix d assume d: "silence + wait \<le> d"
    then have "silence \<le> d" by simp
    from fired [OF this] obtain v where v: "advance wait d w1 = run_until wait (now w1 + d) v"
      "pinging_until (now w1 + silence + wait) v"
      "emits v = emits w @ [(now w1 + silence, wantPing)]" by blast
    from run_until_pinging_due(2) [OF v(2), of "now w1 + d" wait] d v(1,3)
    show "emits (advance wait d w1)
          = emits w @ [(now w1 + silence, wantPing), (now w1 + silence + wait, pingTimeout)]"
      by simp
  qed
  have d: "\<forall>d d'. silence \<le> d \<and> d < silence + wait \<longrightarrow>
          emits (advance wait d' (stop (advance wait d w1)))
          = emits w @ [(now w1 + silence, wantPing)]"
  proof (intro allI impI)
    fix d d' assume "silence \<le> d \<and> d < silence + wait"
    then have p: "emits (advance wait d w1) = emits w @ [(now w1 + silence, wantPing)]"
      "pinging_until (now w1 + silence + wait) (advance wait d w1)"
      using after_ping by simp_all
    note h = stop_pinging [OF p(2)]
    show "emits (advance wait d' (stop (advance wait d w1)))
          = emits w @ [(now w1 + silence, wantPing)]"
      using run_until_halted [OF h(1), of wait] h(2) p(1) by (simp add: advance_def)
  qed
  have e: "\<forall>v. reachable_timer silence wait v \<longrightarrow> armed Looping v + armed PingWait v \<le> 1"
    using reachable_timer_shape armed_shape by blast
  from e1 a b c d e show ?thesis by (intro conjI)
qed

text \<open>The theorem of claim C5 for the default intervals (15 s of silence, 8 s of wait), a
  timer started at time 0 and activity after 1000 ms and after another 14999 ms.\<close>

definition sample_timer_run :: ping_timer where
  "sample_timer_run = activity 15000 8000 [1000, 14999] (start 15000 (new_ping_timer 0))"

theorem ping_timer_state_law_witness:
  "emits sample_timer_run = []
   \<and> emits (advance 8000 14999 sample_timer_run) = []
   \<and> emits (advance 8000 15000 sample_timer_run) = [(30999, wantPing)]
   \<and> emits (advance 8000 23000 sample_timer_run) = [(30999, wantPing), (38999, pingTimeout)]
   \<and> emits (advance 8000 100000 (stop (advance 8000 20000 sample_timer_run))) = [(30999, wantPing)]
   \<and> armed Looping (advance 8000 15000 sample_timer_run)
      + armed PingWait (advance 8000 15000 sample_timer_run) \<le> 1"
proof -
  have r: "reachable_timer 15000 8000 (new_ping_timer 0)"
    by (rule reachable_timer.constructed)
  have s: "\<not> started (new_ping_timer 0)"
    by (simp add: new_ping_timer_def)
  have g: "list_all (\<lambda>g. g < 15000) [1000, 14999 :: nat]"
    by simp
  have b: "(1::nat) \<le> 15000" "(15000::nat) \<le> TIMEOUT_MAX" "(1::nat) \<le> 8000"
    "(8000::nat) \<le> TIMEOUT_MAX"
    by (simp_all add: TIMEOUT_MAX_def)
  note t = ping_timer_state_law [OF r s b g sample_timer_run_def]
  have e: "emits (new_ping_timer 0) = []"
    by (simp add: new_ping_timer_def)
  have n: "now sample_timer_run = 15999"
    by (simp add: sample_timer_run_def start_def new_ping_timer_def setTimeout_def advance_def
        run_until.simps due_def notifyOfActivity_def stop_def clearTimeout_def
        timeout_delay_def TIMEOUT_MAX_def)
  have c1: "emits sample_timer_run = []"
    using t [THEN conjunct1] e by simp
  have c2: "emits (advance 8000 14999 sample_timer_run) = []"
    using t [THEN conjunct2, THEN conjunct1, rule_format, of 14999] e by simp
  have c3: "emits (advance 8000 15000 sample_timer_run) = [(30999, wantPing)]"
    using t [THEN conjunct2, THEN conjunct2, THEN conjunct1, rule_format, of 15000] e n by simp
  have c4: "emits (advance 8000 23000 sample_timer_run) = [(30999, wantPing), (38999, pingTimeout)]"
    using t [THEN conjunct2, THEN conjunct2, THEN conjunct2, THEN conjunct1, rule_format, of 23000]
      e n by simp
  have c5: "emits (advance 8000 100000 (stop (advance 8000 20000 sample_timer_run)))
            = [(30999, wantPing)]"
    using t [THEN conjunct2, THEN conjunct2, THEN conjunct2, THEN conjunct2, THEN conjunct1,
        rule_format, of 20000 100000] e n by simp
  have "reachable_timer 15000 8000 (advance 8000 15000 sample_timer_run)"
    unfolding sample_timer_run_def
    by (intro reachable_timer.advanced reachable_timer_activity reachable_timer.started r)
  then have c6: "armed Looping (advance 8000 15000 sample_timer_run)
      + armed PingWait (advance 8000 15000 sample_timer_run) \<le> 1"
    using t [THEN conjunct2, THEN conjunct2, THEN conjunct2, THEN conjunct2, THEN conjunct2]
    by blast
  from c1 c2 c3 c4 c5 c6 show ?thesis by (intro conjI)
qed

section \<open>The client (irc.ts)\<close>

text \<open>
  The objects that the client uses as dictionaries are modelled by their own properties:
  \<open>chans\<close> as an association list in the order of insertion, the \<open>users\<close> and
  \<open>modeParams\<close> of a channel and \<open>prefixForMode\<close> as maps.  A property can hold
  \<open>undefined\<close>, so the values of \<open>users\<close> are \<open>string option\<close>: \<open>users ch n = None\<close>
  says that \<open>n\<close> is no property of the object, \<open>Some None\<close> that it is one and holds
  \<open>undefined\<close>.  The keys of \<open>modeParams\<close> and \<open>prefixForMode\<close> are read with single
  characters only, which name no property of \<open>Object.prototype\<close>.  Debug output is left
  out.

  The own properties of \<open>chans\<close> are channel objects and those of \<open>users\<close> are strings or
  \<open>undefined\<close> in the model.  The program can leave these bounds: it can store the function
  \<open>Object\<close> in \<open>chans\<close> or an inherited value in \<open>users\<close>, and it can write properties of
  the function \<open>Object\<close> and of \<open>Object.prototype\<close>.  Where it does, the field \<open>outside\<close>
  of the state is set: from then on the state of the model is not the state of the
  program.  While \<open>outside\<close> is not set, \<open>Object.prototype\<close> is as the runtime provides it.
\<close>

record Channel =
  key :: string
  serverName :: string
  users :: "string \<Rightarrow> string option option"
  modeParams :: "char \<Rightarrow> string option list option"
  mode :: string
  topic :: "string option"
  topicBy :: "string option"

text \<open>An emitted event: its name and its arguments.\<close>

datatype arg = Str "string option" | Strs "string list" | Msg IMessage | Num int

datatype event = Event string "arg list"

text \<open>The socket of a connection, with the two properties the client adds to it and the
  lines written to it.  \<open>retryCount\<close> is the variable of the call of \<open>connect\<close> that
  made the connection; the listeners of the socket read it.\<close>

record Connection =
  requestedDisconnect :: bool
  cyclingPingTimer :: ping_timer
  retryCount :: int
  written :: "string list"

text \<open>
  The state of a client.  \<open>self_nick\<close> is \<open>this.nick\<close>; \<open>modes_a\<close> to \<open>modes_d\<close> are
  \<open>this.supported.channel.modes\<close>; the fields \<open>opt_\<close> are those of \<open>this.opt\<close>
  (\<open>opt_silence\<close> is \<open>millisecondsOfSilenceBeforePingSent\<close>).  \<open>floodProtection\<close> says
  that \<open>activateFloodProtection\<close> has replaced \<open>send\<close>, and \<open>cmdQueue\<close> is its queue.
  \<open>reconnect_timers\<close> are the pending timers set by the close listener, each with the
  argument of the call of \<open>connect\<close> it will make.  \<open>events\<close> are the events emitted
  so far.
\<close>

record Client =
  self_nick :: "string option"
  hostMask :: string
  maxLineLength :: int
  chans :: "(string \<times> Channel) list"
  prefixForMode :: "char \<Rightarrow> string option option"
  modes_a :: string
  modes_b :: string
  modes_c :: string
  modes_d :: string
  opt_autoRejoin :: bool
  opt_retryCount :: "int option"
  opt_silence :: nat
  floodProtection :: bool
  cmdQueue :: "string list list"
  conn :: "Connection option"
  reconnect_timers :: "int list"
  events :: "event list"
  outside :: bool

text \<open>A step of a listener ends in a state and, if it threw, an exception; what it did
  before it threw stays done.\<close>

definition and_then ::
  "Client \<times> exn option \<Rightarrow> (Client \<Rightarrow> Client \<times> exn option) \<Rightarrow> Client \<times> exn option" where
  "and_then r f = (case r of (c, None) \<Rightarrow> f c | (c, Some e) \<Rightarrow> (c, Some e))"

definition emit :: "string \<Rightarrow> arg list \<Rightarrow> Client \<Rightarrow> Client" where
  "emit name as c = c\<lparr> events := events c @ [Event name as] \<rparr>"

text \<open>\<open>message.args[i]\<close>.\<close>

definition arg_at :: "IMessage \<Rightarrow> nat \<Rightarrow> string option" where
  "arg_at m i = (if i < length (args m) then Some (args m ! i) else None)"

subsection \<open>Sending\<close>

text \<open>\<open>args.join(" ")\<close>.\<close>

fun join_spaces :: "string list \<Rightarrow> string" where
  "join_spaces [] = []"
| "join_spaces [x] = x"
| "join_spaces (x # y # ys) = x @ CHR '' '' # join_spaces (y # ys)"

text \<open>\<open>s.split(" ")\<close>.\<close>

fun split_space :: "string \<Rightarrow> string list" where
  "split_space [] = [[]]"
| "split_space (c # cs) =
     (if c = CHR '' '' then [] # split_space cs
      else (case split_space cs of
              [] \<Rightarrow> [[c]]
            | l # ls \<Rightarrow> (c # l) # ls))"

text \<open>The test of \<open>send\<close> on the last argument: it holds whitespace, starts with a
  colon or is empty.\<close>

definition needs_colon :: "string \<Rightarrow> bool" where
  "needs_colon s = (list_ex isSpace s \<or> (s \<noteq> [] \<and> hd s = CHR '':'') \<or> s = [])"

text \<open>\<open>send(...args)\<close>, with at least one argument: under flood protection the arguments
  are queued; otherwise the line is written to the socket unless a disconnect was
  requested.  Reading \<open>requestedDisconnect\<close> of a \<open>conn\<close> that is \<open>null\<close> throws.\<close>

definition send :: "string list \<Rightarrow> Client \<Rightarrow> Client \<times> exn option" where
  "send as c =
     (if floodProtection c then (c\<lparr> cmdQueue := cmdQueue c @ [as] \<rparr>, None)
      else (let as' = (if needs_colon (last as) then butlast as @ [CHR '':'' # last as] else as)
            in case conn c of
                 None \<Rightarrow> (c, Some (TypeError ''this.conn is null''))
               | Some cn \<Rightarrow>
                   if requestedDisconnect cn then (c, None)
                   else (c\<lparr> conn := Some (cn\<lparr> written := written cn
                                  @ [join_spaces as' @ [CHR 0x0D, CHR 0x0A]] \<rparr>) \<rparr>, None)))"

text \<open>The listener of \<open>kick\<close> that the constructor registers.\<close>

definition kick_listener :: "string option \<Rightarrow> Client \<Rightarrow> Client \<times> exn option" where
  "kick_listener channel c =
     (if opt_autoRejoin c
      then (case channel of
              None \<Rightarrow> (c, Some (TypeError ''channel is undefined''))
            | Some ch \<Rightarrow> send (''JOIN'' # split_space ch) c)
      else (c, None))"

text \<open>\<open>_updateMaxLineLength()\<close>.\<close>

definition updateMaxLineLength :: "Client \<Rightarrow> Client \<times> exn option" where
  "updateMaxLineLength c =
     (case self_nick c of
        None \<Rightarrow> (c, Some (TypeError ''this.nick is undefined''))
      | Some n \<Rightarrow> (c\<lparr> maxLineLength := 497 - int (length n) - int (length (hostMask c)) \<rparr>, None))"

subsection \<open>Channel state\<close>

text \<open>
  \<open>Object.keys\<close> lists the keys that are array indices first, in ascending order, and
  then the other keys in the order of insertion.
\<close>

definition digits_value :: "string \<Rightarrow> nat" where
  "digits_value s = foldl (\<lambda>n c. 10 * n + (of_char c - 48)) 0 s"

definition isArrayIndex :: "string \<Rightarrow> bool" where
  "isArrayIndex s =
     (s \<noteq> [] \<and> list_all isDigit s \<and> (hd s \<noteq> CHR ''0'' \<or> s = ''0'')
      \<and> digits_value s < 4294967295)"

definition Object_keys :: "(string \<times> 'a) list \<Rightarrow> string list" where
  "Object_keys al =
     sort_key digits_value (filter isArrayIndex (map fst al))
     @ filter (\<lambda>k. \<not> isArrayIndex k) (map fst al)"

definition new_channel :: "string \<Rightarrow> string \<Rightarrow> Channel" where
  "new_channel k name =
     \<lparr> key = k, serverName = name, users = (\<lambda>n. None), modeParams = (\<lambda>md. None),
       mode = [], topic = None, topicBy = None \<rparr>"

text \<open>
  \<open>this.chans[key]\<close>: the own property, a channel object, or else what \<open>Object.prototype\<close>
  holds under the key; \<open>None\<close> is \<open>undefined\<close>.
\<close>

datatype channel_value = Chan Channel | NotChan inherited

definition chans_get :: "(string \<times> Channel) list \<Rightarrow> string \<Rightarrow> channel_value option" where
  "chans_get cs k =
     (case map_of cs k of
        Some ch \<Rightarrow> Some (Chan ch)
      | None \<Rightarrow> map_option NotChan (Object_prototype k))"

text \<open>
  \<open>chanData(name, create)\<close>: the state and what \<open>this.chans[key]\<close> holds at the end.
  \<open>name.toLowerCase()\<close> throws when \<open>name\<close> is \<open>undefined\<close>.  With \<open>create\<close>, the
  assignment \<open>this.chans[key] = this.chans[key] ?? {...}\<close> makes a new channel object only
  if the lookup finds nothing: it stores an own property again; it stores an inherited
  function as an own property of \<open>chans\<close>; and under \<open>__proto__\<close> it sets the prototype
  of \<open>chans\<close> to the prototype it has.
\<close>

definition chanData ::
  "string option \<Rightarrow> bool \<Rightarrow> Client \<Rightarrow> exn + (Client \<times> channel_value option)" where
  "chanData name create c =
     (case name of
        None \<Rightarrow> Inl (TypeError ''name is undefined'')
      | Some n \<Rightarrow>
          (let k = toLowerCase n;
               c' = (if create
                     then (case chans_get (chans c) k of
                             Some (Chan ch) \<Rightarrow> c
                           | Some (NotChan f) \<Rightarrow>
                               if k = ''__proto__'' then c else c\<lparr> outside := True \<rparr>
                           | None \<Rightarrow> c\<lparr> chans := chans c @ [(k, new_channel k n)] \<rparr>)
                     else c)
           in Inr (c', chans_get (chans c') k)))"

text \<open>
  \<open>channel = this.chanData(name); if (channel && channel.users) { ... }\<close>, where the body
  changes properties of the channel object: the entry found under the lower-cased name
  is the one that changes.  The function \<open>Object\<close> and \<open>Object.prototype\<close> have no
  property \<open>users\<close>.
\<close>

definition update_channel ::
  "string option \<Rightarrow> (Channel \<Rightarrow> Channel) \<Rightarrow> Client \<Rightarrow> Client \<times> exn option" where
  "update_channel name f c =
     (case chanData name False c of
        Inl e \<Rightarrow> (c, Some e)
      | Inr (c', None) \<Rightarrow> (c', None)
      | Inr (c', Some (NotChan g)) \<Rightarrow> (c', None)
      | Inr (c', Some (Chan ch)) \<Rightarrow>
          (c'\<lparr> chans := AList.update (toLowerCase (js_key name)) (f ch) (chans c') \<rparr>, None))"

text \<open>
  \<open>channel = this.chanData(name); delete this.chans[channel.key]\<close>: reading \<open>key\<close> of
  \<open>undefined\<close> throws.  The function \<open>Object\<close> and \<open>Object.prototype\<close> have no property
  \<open>key\<close>, so with them the property \<open>undefined\<close> of \<open>chans\<close> is deleted.
\<close>

definition delete_channel :: "string option \<Rightarrow> Client \<Rightarrow> Client \<times> exn option" where
  "delete_channel name c =
     (case chanData name False c of
        Inl e \<Rightarrow> (c, Some e)
      | Inr (c', None) \<Rightarrow> (c', Some (TypeError ''channel is undefined''))
      | Inr (c', Some (NotChan g)) \<Rightarrow> (c'\<lparr> chans := AList.delete ''undefined'' (chans c') \<rparr>, None)
      | Inr (c', Some (Chan ch)) \<Rightarrow> (c'\<lparr> chans := AList.delete (key ch) (chans c') \<rparr>, None))"

subsection \<open>The cases NICK, JOIN, PART, KICK and TOPIC of the raw listener\<close>

text \<open>
  \<open>channel.users[k] = v\<close> for a string or \<open>undefined\<close> \<open>v\<close>.  Unless \<open>users\<close> has an own
  property \<open>__proto__\<close>, the assignment to \<open>__proto__\<close> goes to the setter of
  \<open>Object.prototype\<close>, which ignores a value that is no object.
\<close>

definition set_user :: "string \<Rightarrow> string option \<Rightarrow> Channel \<Rightarrow> Channel" where
  "set_user k v ch =
     (if k = ''__proto__'' \<and> users ch k = None then ch
      else ch\<lparr> users := (users ch)(k := Some v) \<rparr>)"

text \<open>\<open>delete channel.users[k]\<close>.\<close>

definition delete_user :: "string \<Rightarrow> Channel \<Rightarrow> Channel" where
  "delete_user k ch = ch\<lparr> users := (users ch)(k := None) \<rparr>"

text \<open>
  \<open>channel.users[k]\<close> reads an inherited value: \<open>users\<close> has no own property \<open>k\<close> and
  \<open>Object.prototype\<close> has one.
\<close>

definition reads_inherited :: "string \<Rightarrow> Channel \<Rightarrow> bool" where
  "reads_inherited k ch = (users ch k = None \<and> Object_prototype k \<noteq> None)"

text \<open>
  \<open>channel.users[new] = channel.users[old]; delete channel.users[old]\<close>, where the value
  read is a string or \<open>undefined\<close>.
\<close>

definition rename_user :: "string \<Rightarrow> string \<Rightarrow> Channel \<Rightarrow> Channel" where
  "rename_user old new ch =
     delete_user old (set_user new (case users ch old of None \<Rightarrow> None | Some v \<Rightarrow> v) ch)"

text \<open>The loop of the case NICK over \<open>Object.keys(this.chans)\<close>.\<close>

definition rename_in_all :: "string \<Rightarrow> string \<Rightarrow> string list \<Rightarrow> (string \<times> Channel) list \<Rightarrow> (string \<times> Channel) list" where
  "rename_in_all old new channames cs =
     fold (\<lambda>channame cs.
             case map_of cs channame of
               None \<Rightarrow> cs
             | Some ch \<Rightarrow> AList.update channame (rename_user old new ch) cs)
          channames cs"

text \<open>
  The case NICK.  Where the old nick is no own property of the \<open>users\<close> of a channel but
  a property of \<open>Object.prototype\<close>, the loop stores the inherited value in \<open>users\<close> (or
  makes it the prototype of \<open>users\<close>).
\<close>

definition case_NICK :: "IMessage \<Rightarrow> Client \<Rightarrow> Client \<times> exn option" where
  "case_NICK m c =
     and_then
       (if nick m = self_nick c
        then updateMaxLineLength (c\<lparr> self_nick := arg_at m 0 \<rparr>)
        else (c, None))
       (\<lambda>c1. let channels = Object_keys (chans c1);
                  c2 = c1\<lparr> chans := rename_in_all (js_key (nick m)) (js_key (arg_at m 0))
                                       channels (chans c1),
                           outside := outside c1
                                      \<or> list_ex (\<lambda>kv. reads_inherited (js_key (nick m)) (snd kv))
                                           (chans c1) \<rparr>
              in (emit ''nick'' [Str (nick m), Str (arg_at m 0), Strs channels, Msg m] c2, None))"

definition case_JOIN :: "IMessage \<Rightarrow> Client \<Rightarrow> Client \<times> exn option" where
  "case_JOIN m c =
     and_then
       (if self_nick c = nick m
        then (case chanData (arg_at m 0) True c of
                Inl e \<Rightarrow> (c, Some e)
              | Inr (c', ch) \<Rightarrow> (c', None))
        else update_channel (arg_at m 0) (set_user (js_key (nick m)) (Some [])) c)
       (\<lambda>c1. let c2 = emit ''join'' [Str (arg_at m 0), Str (nick m), Msg m] c1;
                  c3 = emit (''join'' @ js_key (arg_at m 0)) [Str (nick m), Msg m] c2
              in case arg_at m 0 of
                   None \<Rightarrow> (c3, Some (TypeError ''message.args[0] is undefined''))
                 | Some a0 \<Rightarrow>
                     (if a0 \<noteq> toLowerCase a0
                      then emit (''join'' @ toLowerCase a0) [Str (nick m), Msg m] c3
                      else c3, None))"

definition case_PART :: "IMessage \<Rightarrow> Client \<Rightarrow> Client \<times> exn option" where
  "case_PART m c =
     (let c1 = emit ''part'' [Str (arg_at m 0), Str (nick m), Str (arg_at m 1), Msg m] c;
          c2 = emit (''part'' @ js_key (arg_at m 0)) [Str (nick m), Str (arg_at m 1), Msg m] c1
      in case arg_at m 0 of
           None \<Rightarrow> (c2, Some (TypeError ''message.args[0] is undefined''))
         | Some a0 \<Rightarrow>
             (let c3 = (if a0 \<noteq> toLowerCase a0
                        then emit (''part'' @ toLowerCase a0)
                               [Str (nick m), Str (arg_at m 1), Msg m] c2
                        else c2)
              in if self_nick c3 = nick m
                 then delete_channel (Some a0) c3
                 else update_channel (Some a0) (delete_user (js_key (nick m))) c3))"

definition case_KICK :: "IMessage \<Rightarrow> Client \<Rightarrow> Client \<times> exn option" where
  "case_KICK m c =
     and_then
       (kick_listener (arg_at m 0)
          (emit ''kick'' [Str (arg_at m 0), Str (arg_at m 1), Str (nick m), Str (arg_at m 2), Msg m] c))
       (\<lambda>c1. let c2 = emit (''kick'' @ js_key (arg_at m 0))
                         [Str (arg_at m 1), Str (nick m), Str (arg_at m 2), Msg m] c1
              in case arg_at m 0 of
                   None \<Rightarrow> (c2, Some (TypeError ''message.args[0] is undefined''))
                 | Some a0 \<Rightarrow>
                     (let c3 = (if a0 \<noteq> toLowerCase a0
                                then emit (''kick'' @ toLowerCase a0)
                                       [Str (arg_at m 1), Str (nick m), Str (arg_at m 2), Msg m] c2
                                else c2)
                      in if self_nick c3 = arg_at m 1
                         then delete_channel (Some a0) c3
                         else update_channel (Some a0) (delete_user (js_key (arg_at m 1))) c3))"

text \<open>
  The case TOPIC: \<open>channel = this.chanData(name); if (channel) { channel.topic = ...;
  channel.topicBy = ... }\<close>.  With an inherited value the two properties are written to
  the function \<open>Object\<close> or to \<open>Object.prototype\<close>.
\<close>

definition case_TOPIC :: "IMessage \<Rightarrow> Client \<Rightarrow> Client \<times> exn option" where
  "case_TOPIC m c =
     (let c1 = emit ''topic'' [Str (arg_at m 0), Str (arg_at m 1), Str (nick m), Msg m] c
      in case chanData (arg_at m 0) False c1 of
           Inl e \<Rightarrow> (c1, Some e)
         | Inr (c2, None) \<Rightarrow> (c2, None)
         | Inr (c2, Some (NotChan g)) \<Rightarrow> (c2\<lparr> outside := True \<rparr>, None)
         | Inr (c2, Some (Chan ch)) \<Rightarrow>
             (c2\<lparr> chans := AList.update (toLowerCase (js_key (arg_at m 0)))
                              (ch\<lparr> topic := arg_at m 1, topicBy := nick m \<rparr>) (chans c2) \<rparr>, None))"

subsection \<open>The case MODE of the raw listener\<close>

text \<open>\<open>s.indexOf(p) !== -1\<close> and \<open>s.replace(p, "")\<close> for a string \<open>p\<close>: whether \<open>p\<close>
  occurs in \<open>s\<close>, and \<open>s\<close> without the first occurrence of \<open>p\<close>.\<close>

fun contains :: "string \<Rightarrow> string \<Rightarrow> bool" where
  "contains p [] = (p = [])"
| "contains p (c # cs) = (take (length p) (c # cs) = p \<or> contains p cs)"

fun remove_first :: "string \<Rightarrow> string \<Rightarrow> string" where
  "remove_first p [] = []"
| "remove_first p (c # cs) =
     (if take (length p) (c # cs) = p then drop (length p) (c # cs) else c # remove_first p cs)"

text \<open>\<open>modeArgs.shift()\<close>.\<close>

definition shift :: "string list \<Rightarrow> string option \<times> string list" where
  "shift xs = (case xs of [] \<Rightarrow> (None, []) | x # r \<Rightarrow> (Some x, r))"

text \<open>The second argument of \<open>chanModes\<close>: left out or \<open>undefined\<close>, a string, or an
  array of one element.\<close>

datatype mode_param = NoParam | One string | Arr "string option"

text \<open>\<open>chanModes(mode, param)\<close>, on the channel object; \<open>adding\<close> is the variable of the
  enclosing listener.\<close>

definition chanModes :: "bool \<Rightarrow> char \<Rightarrow> mode_param \<Rightarrow> Channel \<Rightarrow> exn + Channel" where
  "chanModes adding md param ch =
     (if adding
      then (let ch1 = (if md \<notin> set (mode ch) then ch\<lparr> mode := mode ch @ [md] \<rparr> else ch)
            in Inr (case param of
                      NoParam \<Rightarrow> ch1\<lparr> modeParams := (modeParams ch1)(md := Some []) \<rparr>
                    | Arr v \<Rightarrow>
                        ch1\<lparr> modeParams := (modeParams ch1)
                               (md := Some (case modeParams ch1 md of
                                              Some ps \<Rightarrow> ps @ [v]
                                            | None \<Rightarrow> [v])) \<rparr>
                    | One p \<Rightarrow> ch1\<lparr> modeParams := (modeParams ch1)(md := Some [Some p]) \<rparr>))
      else (case param of
              Arr v \<Rightarrow>
                (case modeParams ch md of
                   None \<Rightarrow> Inl (TypeError ''channel.modeParams[mode] is undefined'')
                 | Some ps \<Rightarrow>
                     if filter (\<lambda>x. x \<noteq> v) ps = []
                     then Inr (ch\<lparr> mode := remove1 md (mode ch),
                                   modeParams := (modeParams ch)(md := None) \<rparr>)
                     else Inr (ch\<lparr> modeParams := (modeParams ch)(md := Some (filter (\<lambda>x. x \<noteq> v) ps)) \<rparr>))
            | NoParam \<Rightarrow> Inr (ch\<lparr> mode := remove1 md (mode ch),
                                   modeParams := (modeParams ch)(md := None) \<rparr>)
            | One p \<Rightarrow> Inr (ch\<lparr> mode := remove1 md (mode ch),
                                 modeParams := (modeParams ch)(md := None) \<rparr>)))"

text \<open>
  The body of \<open>modeList.forEach\<close> for one letter.  The state of the loop is \<open>adding\<close>,
  \<open>modeArgs\<close> and the client; \<open>k\<close> is the key under which \<open>chanData\<close> found the value
  of \<open>channel\<close>, which stays there during the loop.  If that value is no channel object,
  reading a property of its \<open>users\<close>, \<open>mode\<close> or \<open>modeParams\<close> throws.  The call
  \<open>channel.users.hasOwnProperty(modeArg)\<close> throws if \<open>users\<close> has an own property
  \<open>hasOwnProperty\<close>, which holds a string or \<open>undefined\<close>.
\<close>

definition mode_letter ::
  "IMessage \<Rightarrow> string \<Rightarrow> char \<Rightarrow> bool \<times> string list \<times> Client
   \<Rightarrow> (bool \<times> string list \<times> Client) \<times> exn option" where
  "mode_letter m k md st =
     (case st of (adding, modeArgs, c) \<Rightarrow>
        if md = CHR ''+'' then ((True, modeArgs, c), None)
        else if md = CHR ''-'' then ((False, modeArgs, c), None)
        else (case chans_get (chans c) k of
                None \<Rightarrow> (st, Some (TypeError ''channel is undefined''))
              | Some (NotChan g) \<Rightarrow>
                  if prefixForMode c md \<noteq> None
                  then (st, Some (TypeError ''channel.users is undefined''))
                  else if md \<in> set (modes_a c)
                  then (st, Some (TypeError (if adding then ''channel.mode is undefined''
                                             else ''channel.modeParams is undefined'')))
                  else if md \<in> set (modes_b c) \<or> md \<in> set (modes_c c) \<or> md \<in> set (modes_d c)
                  then (st, Some (TypeError ''channel.mode is undefined''))
                  else (st, None)
              | Some (Chan ch) \<Rightarrow>
                  (let ev = (\<lambda>modeArg. emit ((if adding then ''+'' else ''-'') @ ''mode'')
                                          [Str (arg_at m 0), Str (nick m), Str (Some [md]),
                                           Str modeArg, Msg m]);
                       put = (\<lambda>ch'. c\<lparr> chans := AList.update k ch' (chans c) \<rparr>)
                   in case prefixForMode c md of
                        Some pfx \<Rightarrow>
                          if users ch ''hasOwnProperty'' \<noteq> None
                          then ((adding, snd (shift modeArgs), c),
                                Some (TypeError ''channel.users.hasOwnProperty is not a function''))
                          else
                          (case users ch (js_key (fst (shift modeArgs))) of
                             None \<Rightarrow>
                               ((adding, snd (shift modeArgs), ev (fst (shift modeArgs)) c), None)
                           | Some None \<Rightarrow>
                               ((adding, snd (shift modeArgs), c),
                                Some (TypeError ''channel.users[modeArg] is undefined''))
                           | Some (Some s) \<Rightarrow>
                               ((adding, snd (shift modeArgs),
                                 ev (fst (shift modeArgs))
                                    (put (ch\<lparr> users := (users ch)
                                            (js_key (fst (shift modeArgs)) :=
                                               Some (Some (if adding
                                                           then (if contains (js_key pfx) s then s
                                                                 else s @ js_key pfx)
                                                           else remove_first (js_key pfx) s))) \<rparr>))),
                                None))
                      | None \<Rightarrow>
                          if md \<in> set (modes_a c)
                          then (case chanModes adding md (Arr (fst (shift modeArgs))) ch of
                                  Inl e \<Rightarrow> ((adding, snd (shift modeArgs), c), Some e)
                                | Inr ch' \<Rightarrow>
                                    ((adding, snd (shift modeArgs),
                                      ev (fst (shift modeArgs)) (put ch')), None))
                          else if md \<in> set (modes_b c)
                          then (case chanModes adding md
                                       (case fst (shift modeArgs) of None \<Rightarrow> NoParam | Some p \<Rightarrow> One p) ch of
                                  Inl e \<Rightarrow> ((adding, snd (shift modeArgs), c), Some e)
                                | Inr ch' \<Rightarrow>
                                    ((adding, snd (shift modeArgs),
                                      ev (fst (shift modeArgs)) (put ch')), None))
                          else if md \<in> set (modes_c c)
                          then (let sh = (if adding then shift modeArgs else (None, modeArgs))
                                in case chanModes adding md
                                          (case fst sh of None \<Rightarrow> NoParam | Some p \<Rightarrow> One p) ch of
                                     Inl e \<Rightarrow> ((adding, snd sh, c), Some e)
                                   | Inr ch' \<Rightarrow> ((adding, snd sh, ev (fst sh) (put ch')), None))
                          else if md \<in> set (modes_d c)
                          then (case chanModes adding md NoParam ch of
                                  Inl e \<Rightarrow> ((adding, modeArgs, c), Some e)
                                | Inr ch' \<Rightarrow> ((adding, modeArgs, ev None (put ch')), None))
                          else (st, None))))"

text \<open>\<open>modeList.forEach\<close>: an exception ends the loop.\<close>

fun mode_letters ::
  "IMessage \<Rightarrow> string \<Rightarrow> string \<Rightarrow> bool \<times> string list \<times> Client \<Rightarrow> Client \<times> exn option" where
  "mode_letters m k [] st = (snd (snd st), None)"
| "mode_letters m k (md # mds) st =
     (case mode_letter m k md st of
        (st', Some e) \<Rightarrow> (snd (snd st'), Some e)
      | (st', None) \<Rightarrow> mode_letters m k mds st')"

definition case_MODE :: "IMessage \<Rightarrow> Client \<Rightarrow> Client \<times> exn option" where
  "case_MODE m c =
     (case chanData (arg_at m 0) False c of
        Inl e \<Rightarrow> (c, Some e)
      | Inr (c1, None) \<Rightarrow> (c1, None)
      | Inr (c1, Some channel) \<Rightarrow>
          (case arg_at m 1 of
             None \<Rightarrow> (c1, Some (TypeError ''message.args[1] is undefined''))
           | Some modeList \<Rightarrow>
               mode_letters m (toLowerCase (js_key (arg_at m 0))) modeList
                 (True, drop 2 (args m), c1)))"

text \<open>
  The cases of the \<open>switch\<close> of the raw listener that are embedded here; \<open>None\<close> for a
  command whose case is not.
\<close>

definition raw_listener :: "IMessage \<Rightarrow> Client \<Rightarrow> (Client \<times> exn option) option" where
  "raw_listener m c =
     (if command m = Some ''MODE'' then Some (case_MODE m c)
      else if command m = Some ''NICK'' then Some (case_NICK m c)
      else if command m = Some ''TOPIC'' then Some (case_TOPIC m c)
      else if command m = Some ''JOIN'' then Some (case_JOIN m c)
      else if command m = Some ''PART'' then Some (case_PART m c)
      else if command m = Some ''KICK'' then Some (case_KICK m c)
      else None)"

subsection \<open>Connecting, framing and reconnecting (Client.connect)\<close>

text \<open>
  \<open>connect(retryCount)\<close> at time \<open>t\<close>: the channel state is discarded and a new socket
  with a new ping timer becomes the current connection.  \<open>retryCount || 0\<close> is the
  variable that the listeners of the socket keep.
\<close>

definition connect :: "nat \<Rightarrow> int option \<Rightarrow> Client \<Rightarrow> Client" where
  "connect t n c =
     c\<lparr> chans := [],
        conn := Some \<lparr> requestedDisconnect = False, cyclingPingTimer = new_ping_timer t,
                       retryCount = (case n of None \<Rightarrow> 0 | Some i \<Rightarrow> i), written = [] \<rparr> \<rparr>"

text \<open>\<open>buffer.toString().split(lineDelimiter)\<close> with \<open>lineDelimiter = /\r\n|\r|\n/\<close>;
  \<open>after_cr\<close> says that the character before was a carriage return, so that a line
  feed completes the same delimiter.\<close>

fun split_lines_from :: "bool \<Rightarrow> string \<Rightarrow> string list" where
  "split_lines_from after_cr [] = [[]]"
| "split_lines_from after_cr (c # cs) =
     (if c = CHR 0x0A \<and> after_cr then split_lines_from False cs
      else if c = CHR 0x0D then [] # split_lines_from True cs
      else if c = CHR 0x0A then [] # split_lines_from False cs
      else (case split_lines_from False cs of
              [] \<Rightarrow> [[c]]
            | l # ls \<Rightarrow> (c # l) # ls))"

definition split_lines :: "string \<Rightarrow> string list" where
  "split_lines s = split_lines_from False s"

text \<open>
  \<open>lines.forEach\<close> of \<open>handleData\<close>.  \<open>raw\<close> stands for what the listeners of the
  \<open>raw\<close> event do with a message; \<open>delivered\<close> collects the messages emitted as \<open>raw\<close>
  events.  An exception of the parser leaves the loop; one of a listener is thrown
  again unless the current connection has \<open>requestedDisconnect\<close> set.
\<close>

fun deliver_lines ::
  "(IMessage \<Rightarrow> Client \<Rightarrow> Client \<times> exn option) \<Rightarrow> (string \<Rightarrow> replyEntry option) \<Rightarrow> bool
   \<Rightarrow> string list \<Rightarrow> IMessage list \<times> Client \<Rightarrow> IMessage list \<times> Client \<times> exn option" where
  "deliver_lines raw replyFor strip [] (delivered, c) = (delivered, c, None)"
| "deliver_lines raw replyFor strip (line # lines) (delivered, c) =
     (if line = [] then deliver_lines raw replyFor strip lines (delivered, c)
      else (case parseMessage replyFor line strip of
              Inl e \<Rightarrow> (delivered, c, Some e)
            | Inr message \<Rightarrow>
                (case raw message c of
                   (c', None) \<Rightarrow> deliver_lines raw replyFor strip lines (delivered @ [message], c')
                 | (c', Some e) \<Rightarrow>
                     (case conn c' of
                        None \<Rightarrow> (delivered @ [message], c', Some (TypeError ''this.conn is null''))
                      | Some cn \<Rightarrow>
                          if requestedDisconnect cn
                          then deliver_lines raw replyFor strip lines (delivered @ [message], c')
                          else (delivered @ [message], c', Some e)))))"

text \<open>
  \<open>handleData(chunk)\<close> for a chunk that is a string.  \<open>buffer\<close> is the variable of
  \<open>connect\<close> that the function keeps; \<open>strip\<close> is \<open>opt.stripColors\<close>.  The result is the
  buffer, the messages emitted as \<open>raw\<close> events, the client and the exception thrown,
  if any.
\<close>

definition handleData ::
  "(IMessage \<Rightarrow> Client \<Rightarrow> Client \<times> exn option) \<Rightarrow> (string \<Rightarrow> replyEntry option) \<Rightarrow> bool
   \<Rightarrow> string \<Rightarrow> string \<times> Client \<Rightarrow> string \<times> IMessage list \<times> Client \<times> exn option" where
  "handleData raw replyFor strip chunk bc =
     (case bc of (buffer, c) \<Rightarrow>
        (case conn c of
           None \<Rightarrow> (buffer, [], c, Some (TypeError ''this.conn is null''))
         | Some cn \<Rightarrow>
             (let c1 = c\<lparr> conn := Some (cn\<lparr> cyclingPingTimer :=
                                            notifyOfActivity (opt_silence c) (cyclingPingTimer cn) \<rparr>) \<rparr>;
                  lines = split_lines (buffer @ chunk)
              in if last lines \<noteq> [] then (buffer @ chunk, [], c1, None)
                 else (case deliver_lines raw replyFor strip (butlast lines) ([], c1) of
                         (delivered, c2, e) \<Rightarrow> ([], delivered, c2, e)))))"

text \<open>
  The listener of \<open>close\<close> of a socket \<open>sock\<close>.  It reads \<open>requestedDisconnect\<close> of the
  current connection and the \<open>retryCount\<close> of its own call of \<open>connect\<close>; it either
  returns, emits \<open>abort\<close> with the configured cap, or sets the timer that reconnects
  with \<open>retryCount + 1\<close>.
\<close>

definition close_listener :: "Connection \<Rightarrow> Client \<Rightarrow> Client" where
  "close_listener sock c =
     (if (case conn c of None \<Rightarrow> False | Some cn \<Rightarrow> requestedDisconnect cn) then c
      else (case opt_retryCount c of
              None \<Rightarrow> c\<lparr> reconnect_timers := reconnect_timers c @ [retryCount sock + 1] \<rparr>
            | Some cap \<Rightarrow>
                if retryCount sock \<ge> cap then emit ''abort'' [Num cap] c
                else c\<lparr> reconnect_timers := reconnect_timers c @ [retryCount sock + 1] \<rparr>))"

text \<open>The socket of the current connection closes.\<close>

definition socket_closed :: "Client \<Rightarrow> Client" where
  "socket_closed c = (case conn c of None \<Rightarrow> c | Some cn \<Rightarrow> close_listener cn c)"

text \<open>The oldest pending reconnect timer fires at time \<open>t\<close>.\<close>

definition reconnect_fires :: "nat \<Rightarrow> Client \<Rightarrow> Client" where
  "reconnect_fires t c =
     (case reconnect_timers c of
        [] \<Rightarrow> c
      | n # ns \<Rightarrow> connect t (Some n) (c\<lparr> reconnect_timers := ns \<rparr>))"


subsection \<open>Properties of the client\<close>

text \<open>A client and messages for running the listeners on examples.\<close>

definition sample_client :: Client where
  "sample_client =
     \<lparr> self_nick = Some ''bot'', hostMask = ''bot@host'', maxLineLength = 200, chans = [],
       prefixForMode = (\<lambda>md. None)(CHR ''o'' := Some (Some ''@''), CHR ''v'' := Some (Some ''+'')),
       modes_a = ''b'', modes_b = ''kov'', modes_c = ''l'', modes_d = ''imnpst'',
       opt_autoRejoin = False, opt_retryCount = Some 2, opt_silence = 15000,
       floodProtection = False, cmdQueue = [],
       conn = None, reconnect_timers = [], events = [], outside = False \<rparr>"

definition sample_message :: "string \<Rightarrow> string \<Rightarrow> string list \<Rightarrow> IMessage" where
  "sample_message n cmd as =
     \<lparr> prefix = Some (n @ ''!user@host''), nick = Some n, user = Some ''user'', host = Some ''host'',
       server = None, command = Some cmd, rawCommand = cmd, commandType = Some Normal, args = as \<rparr>"

lemma chanData_lookup:
  "chanData (Some n) False c = Inr (c, chans_get (chans c) (toLowerCase n))"
  by (simp add: chanData_def)

lemma delete_channel_missing:
  "chans_get (chans c) (toLowerCase a0) = None
   \<Longrightarrow> delete_channel (Some a0) c = (c, Some (TypeError ''channel is undefined''))"
  by (simp add: delete_channel_def chanData_lookup)

lemma update_channel_missing:
  "chans_get (chans c) (toLowerCase a0) = None \<Longrightarrow> update_channel (Some a0) f c = (c, None)"
  by (simp add: update_channel_def chanData_lookup)

lemma chans_emit [simp]: "chans (emit name as c) = chans c"
  by (simp add: emit_def)

lemma self_nick_emit [simp]: "self_nick (emit name as c) = self_nick c"
  by (simp add: emit_def)

lemma outside_emit [simp]: "outside (emit name as c) = outside c"
  by (simp add: emit_def)

text \<open>The listener of \<open>kick\<close> throws only when it sends without a connection.\<close>

definition rejoin_throws :: "Client \<Rightarrow> bool" where
  "rejoin_throws c = (opt_autoRejoin c \<and> \<not> floodProtection c \<and> conn c = None)"

lemma kick_listener_result:
  "\<exists>c'. kick_listener (Some a0) c
          = (c', if rejoin_throws c then Some (TypeError ''this.conn is null'') else None)
        \<and> chans c' = chans c \<and> self_nick c' = self_nick c \<and> events c' = events c
        \<and> outside c' = outside c"
  by (auto simp: kick_listener_def send_def rejoin_throws_def Let_def split: option.splits)

text \<open>
  Claim C10 fails for a channel whose lower-cased name is a property of
  \<open>Object.prototype\<close>: the channel map of the sample client has no entry \<open>constructor\<close>,
  but the lookup finds the function \<open>Object\<close>, reading its \<open>key\<close> yields \<open>undefined\<close>, and
  the local user's PART of \<open>constructor\<close> and a KICK of the local user from it return
  without an exception.
\<close>

theorem part_kick_inherited_counterexample:
  "map_of (chans sample_client) (toLowerCase ''constructor'') = None
   \<and> self_nick sample_client = nick (sample_message ''bot'' ''PART'' [''constructor''])
   \<and> snd (case_PART (sample_message ''bot'' ''PART'' [''constructor'']) sample_client) = None
   \<and> self_nick sample_client
     = arg_at (sample_message ''op'' ''KICK'' [''constructor'', ''bot'', ''bye'']) 1
   \<and> snd (case_KICK (sample_message ''op'' ''KICK'' [''constructor'', ''bot'', ''bye''])
            sample_client) = None"
proof -
  have l: "toLowerCase ''constructor'' = ''constructor''"
    by code_simp
  have g: "chans_get [] ''constructor'' = Some (NotChan ObjectFunction)"
    by (simp add: chans_get_def Object_prototype_def)
  have d: "delete_channel (Some ''constructor'') c = (c\<lparr> chans := [] \<rparr>, None)" if "chans c = []" for c
    using that by (simp add: delete_channel_def chanData_lookup l g AList.delete_eq)
  show ?thesis
    by (simp add: l d case_PART_def case_KICK_def kick_listener_def and_then_def Let_def
        sample_client_def sample_message_def arg_at_def emit_def)
qed

text \<open>
  Claim C10 as amended.  Let a PART or KICK message name a channel whose lower-cased
  name is neither a key of the channel map nor the name of a property of
  \<open>Object.prototype\<close>.  If the PART is the local user's, the listener throws the
  TypeError of reading \<open>key\<close> of the missing entry; if it is another user's, the listener
  returns and the channel map is as before.  A KICK that targets the local user throws a
  TypeError too: that of the missing entry, or before it that of the listener of \<open>kick\<close>
  when auto-rejoin sends without a connection.  A KICK that targets another user leaves
  the channel map as it is and throws nothing but that exception of the listener of
  \<open>kick\<close>.
\<close>

theorem part_kick_missing_channel:
  assumes "\<not> outside c" and "arg_at m 0 = Some a0"
    and "map_of (chans c) (toLowerCase a0) = None"
    and "Object_prototype (toLowerCase a0) = None"
  shows "(self_nick c = nick m \<longrightarrow>
            snd (case_PART m c) = Some (TypeError ''channel is undefined''))
       \<and> (self_nick c \<noteq> nick m \<longrightarrow>
            snd (case_PART m c) = None \<and> chans (fst (case_PART m c)) = chans c)
       \<and> (self_nick c = arg_at m 1 \<longrightarrow>
            snd (case_KICK m c)
            = Some (TypeError (if rejoin_throws c then ''this.conn is null''
                               else ''channel is undefined'')))
       \<and> (self_nick c \<noteq> arg_at m 1 \<longrightarrow>
            snd (case_KICK m c)
            = (if rejoin_throws c then Some (TypeError ''this.conn is null'') else None)
            \<and> chans (fst (case_KICK m c)) = chans c)"
proof -
  have miss: "chans_get (chans c) (toLowerCase a0) = None"
    using assms(3,4) by (simp add: chans_get_def)
  define p3 where "p3 = (let c1 = emit ''part'' [Str (arg_at m 0), Str (nick m), Str (arg_at m 1), Msg m] c;
          c2 = emit (''part'' @ js_key (arg_at m 0)) [Str (nick m), Str (arg_at m 1), Msg m] c1
      in if a0 \<noteq> toLowerCase a0
         then emit (''part'' @ toLowerCase a0) [Str (nick m), Str (arg_at m 1), Msg m] c2
         else c2)"
  have p3: "chans p3 = chans c" "self_nick p3 = self_nick c"
    by (simp_all add: p3_def Let_def)
  have part: "case_PART m c = (if self_nick p3 = nick m then delete_channel (Some a0) p3
                 else update_channel (Some a0) (delete_user (js_key (nick m))) p3)"
    using assms(2) by (simp add: case_PART_def p3_def Let_def)
  have miss_p: "chans_get (chans p3) (toLowerCase a0) = None"
    using miss p3 by simp
  have part_self: "self_nick c = nick m \<longrightarrow>
            snd (case_PART m c) = Some (TypeError ''channel is undefined'')"
    by (simp add: part p3 delete_channel_missing [OF miss_p])
  have part_other: "self_nick c \<noteq> nick m \<longrightarrow>
            snd (case_PART m c) = None \<and> chans (fst (case_PART m c)) = chans c"
    by (simp add: part p3 update_channel_missing [OF miss_p])
  define c0 where "c0 = emit ''kick''
      [Str (arg_at m 0), Str (arg_at m 1), Str (nick m), Str (arg_at m 2), Msg m] c"
  have r0: "rejoin_throws c0 = rejoin_throws c"
    by (simp add: c0_def rejoin_throws_def emit_def)
  obtain c1 where k: "kick_listener (Some a0) c0
          = (c1, if rejoin_throws c0 then Some (TypeError ''this.conn is null'') else None)"
    and c1: "chans c1 = chans c0" "self_nick c1 = self_nick c0"
    using kick_listener_result [of a0 c0] by blast
  have c1': "chans c1 = chans c" "self_nick c1 = self_nick c"
    using c1 by (simp_all add: c0_def)
  define k3 where "k3 = (let c2 = emit (''kick'' @ js_key (arg_at m 0))
                         [Str (arg_at m 1), Str (nick m), Str (arg_at m 2), Msg m] c1
      in if a0 \<noteq> toLowerCase a0
         then emit (''kick'' @ toLowerCase a0)
                [Str (arg_at m 1), Str (nick m), Str (arg_at m 2), Msg m] c2
         else c2)"
  have k3: "chans k3 = chans c" "self_nick k3 = self_nick c"
    using c1' by (simp_all add: k3_def Let_def)
  have thrown: "rejoin_throws c \<Longrightarrow>
      case_KICK m c = (c1, Some (TypeError ''this.conn is null''))"
    unfolding case_KICK_def c0_def [symmetric]
    using assms(2) k r0 by (simp add: and_then_def)
  have kick: "\<not> rejoin_throws c \<Longrightarrow>
      case_KICK m c = (if self_nick k3 = arg_at m 1 then delete_channel (Some a0) k3
                 else update_channel (Some a0) (delete_user (js_key (arg_at m 1))) k3)"
    unfolding case_KICK_def c0_def [symmetric]
    using assms(2) k r0 by (simp add: and_then_def k3_def Let_def)
  have miss_k: "chans_get (chans k3) (toLowerCase a0) = None"
    using miss k3 by simp
  have kick_self: "self_nick c = arg_at m 1 \<longrightarrow>
            snd (case_KICK m c)
            = Some (TypeError (if rejoin_throws c then ''this.conn is null''
                               else ''channel is undefined''))"
  proof (cases "rejoin_throws c")
    case True
    then show ?thesis by (simp add: thrown)
  next
    case False
    then show ?thesis by (simp add: kick k3 delete_channel_missing [OF miss_k])
  qed
  have kick_other: "self_nick c \<noteq> arg_at m 1 \<longrightarrow>
            snd (case_KICK m c)
            = (if rejoin_throws c then Some (TypeError ''this.conn is null'') else None)
            \<and> chans (fst (case_KICK m c)) = chans c"
  proof (cases "rejoin_throws c")
    case True
    then show ?thesis by (simp add: thrown c1')
  next
    case False
    then show ?thesis by (simp add: kick k3 update_channel_missing [OF miss_k])
  qed
  from part_self part_other kick_self kick_other show ?thesis by (intro conjI)
qed

text \<open>The theorem of claim C10 for a client that is in no channel: its own PART of
  \<open>#nowhere\<close> and a KICK of it from \<open>#nowhere\<close> throw.\<close>

theorem part_kick_missing_channel_witness:
  "snd (case_PART (sample_message ''bot'' ''PART'' [''#nowhere'']) sample_client)
     = Some (TypeError ''channel is undefined'')
   \<and> snd (case_KICK (sample_message ''op'' ''KICK'' [''#nowhere'', ''bot'', ''bye'']) sample_client)
     = Some (TypeError ''channel is undefined'')"
proof -
  have o: "\<not> outside sample_client"
    by (simp add: sample_client_def)
  have l: "toLowerCase ''#nowhere'' = ''#nowhere''"
    by code_simp
  have a: "map_of (chans sample_client) (toLowerCase ''#nowhere'') = None"
    by (simp add: sample_client_def)
  have i: "Object_prototype (toLowerCase ''#nowhere'') = None"
    unfolding l by code_simp
  have p0: "arg_at (sample_message ''bot'' ''PART'' [''#nowhere'']) 0 = Some ''#nowhere''"
    by (simp add: arg_at_def sample_message_def)
  have k0: "arg_at (sample_message ''op'' ''KICK'' [''#nowhere'', ''bot'', ''bye'']) 0 = Some ''#nowhere''"
    by (simp add: arg_at_def sample_message_def)
  have pn: "self_nick sample_client = nick (sample_message ''bot'' ''PART'' [''#nowhere''])"
    by (simp add: sample_client_def sample_message_def)
  have kn: "self_nick sample_client
            = arg_at (sample_message ''op'' ''KICK'' [''#nowhere'', ''bot'', ''bye'']) 1"
    by (simp add: sample_client_def sample_message_def arg_at_def)
  have nr: "\<not> rejoin_throws sample_client"
    by (simp add: rejoin_throws_def sample_client_def)
  from part_kick_missing_channel [OF o p0 a i] pn
  have 1: "snd (case_PART (sample_message ''bot'' ''PART'' [''#nowhere'']) sample_client)
     = Some (TypeError ''channel is undefined'')" by blast
  from part_kick_missing_channel [OF o k0 a i] kn nr
  have 2: "snd (case_KICK (sample_message ''op'' ''KICK'' [''#nowhere'', ''bot'', ''bye'']) sample_client)
     = Some (TypeError ''channel is undefined'')" by simp
  from 1 2 show ?thesis by (intro conjI)
qed

text \<open>Whether a disconnect was requested on the current connection, as the close listener
  reads it.\<close>

definition disconnect_requested :: "Client \<Rightarrow> bool" where
  "disconnect_requested c = (case conn c of None \<Rightarrow> False | Some cn \<Rightarrow> requestedDisconnect cn)"

text \<open>
  Claim C6.  After a close that was not requested, a reconnect (with the next attempt
  count) is scheduled exactly when no cap is configured or the attempt count of the
  closed connection is below the cap; when it is not scheduled, \<open>abort\<close> is emitted with
  the cap.  With the cap 2 and no reconnect pending, three closes in a row, each of the
  then current connection and each followed by the reconnect it scheduled, emit exactly
  one event, \<open>abort\<close> with 2, and leave no reconnect pending.
\<close>

theorem reconnect_cap:
  "(\<not> disconnect_requested c \<longrightarrow>
      ((reconnect_timers (close_listener sock c) = reconnect_timers c @ [retryCount sock + 1]
          \<and> events (close_listener sock c) = events c)
        = (opt_retryCount c = None \<or> (\<exists>cap. opt_retryCount c = Some cap \<and> retryCount sock < cap)))
      \<and> (\<forall>cap. opt_retryCount c = Some cap \<and> cap \<le> retryCount sock \<longrightarrow>
            close_listener sock c = emit ''abort'' [Num cap] c))
   \<and> (opt_retryCount c = Some 2 \<and> reconnect_timers c = [] \<longrightarrow>
        events (socket_closed (reconnect_fires t2 (socket_closed (reconnect_fires t1
                  (socket_closed (connect t0 None c))))))
          = events c @ [Event ''abort'' [Num 2]]
        \<and> reconnect_timers (socket_closed (reconnect_fires t2 (socket_closed (reconnect_fires t1
                  (socket_closed (connect t0 None c)))))) = []
        \<and> reconnect_timers (socket_closed (connect t0 None c)) = [1]
        \<and> reconnect_timers (socket_closed (reconnect_fires t1 (socket_closed (connect t0 None c)))) = [2])"
proof -
  have general: "\<not> disconnect_requested c \<longrightarrow>
      ((reconnect_timers (close_listener sock c) = reconnect_timers c @ [retryCount sock + 1]
          \<and> events (close_listener sock c) = events c)
        = (opt_retryCount c = None \<or> (\<exists>cap. opt_retryCount c = Some cap \<and> retryCount sock < cap)))
      \<and> (\<forall>cap. opt_retryCount c = Some cap \<and> cap \<le> retryCount sock \<longrightarrow>
            close_listener sock c = emit ''abort'' [Num cap] c)"
    by (auto simp: close_listener_def disconnect_requested_def emit_def split: option.splits)
  have scenario: "events (socket_closed (reconnect_fires t2 (socket_closed (reconnect_fires t1
                  (socket_closed (connect t0 None c))))))
          = events c @ [Event ''abort'' [Num 2]]
        \<and> reconnect_timers (socket_closed (reconnect_fires t2 (socket_closed (reconnect_fires t1
                  (socket_closed (connect t0 None c)))))) = []
        \<and> reconnect_timers (socket_closed (connect t0 None c)) = [1]
        \<and> reconnect_timers (socket_closed (reconnect_fires t1 (socket_closed (connect t0 None c)))) = [2]"
    if "opt_retryCount c = Some 2" "reconnect_timers c = []"
    using that
    by (simp add: socket_closed_def reconnect_fires_def connect_def close_listener_def emit_def)
  from general scenario show ?thesis by blast
qed

text \<open>The theorem of claim C6 for the sample client, whose cap is 2.\<close>

theorem reconnect_cap_witness:
  "events (socket_closed (reconnect_fires 4000 (socket_closed (reconnect_fires 2000
             (socket_closed (connect 0 None sample_client))))))
     = [Event ''abort'' [Num 2]]
   \<and> reconnect_timers (socket_closed (reconnect_fires 4000 (socket_closed (reconnect_fires 2000
             (socket_closed (connect 0 None sample_client)))))) = []
   \<and> reconnect_timers (socket_closed (connect 0 None sample_client)) = [1]"
proof -
  have a: "opt_retryCount sample_client = Some 2 \<and> reconnect_timers sample_client = []"
    by (simp add: sample_client_def)
  have e: "events sample_client = []"
    by (simp add: sample_client_def)
  from reconnect_cap [of sample_client _ 4000 2000 0, THEN conjunct2, rule_format, OF a] e
  show ?thesis by simp
qed

text \<open>What \<open>lines.forEach\<close> emits: the parsed non-empty lines in order, up to the line at
  which the loop is left by an exception, and all of them when there is none.\<close>

lemma deliver_lines_prefix:
  "deliver_lines raw replyFor strip ls (d0, c) = (d, c', e)
   \<Longrightarrow> (\<exists>k. map Inr d = map Inr d0
                 @ take k (map (\<lambda>l. parseMessage replyFor l strip) (filter (\<lambda>l. l \<noteq> []) ls)))
     \<and> (e = None \<longrightarrow> map Inr d = map Inr d0
                 @ map (\<lambda>l. parseMessage replyFor l strip) (filter (\<lambda>l. l \<noteq> []) ls))"
proof (induction ls arbitrary: d0 c)
  case Nil
  then show ?case by simp
next
  case (Cons line ls)
  let ?P = "\<lambda>l. parseMessage replyFor l strip"
  let ?rest = "map ?P (filter (\<lambda>l. l \<noteq> []) ls)"
  show ?case
  proof (cases "line = []")
    case True
    with Cons.prems have "deliver_lines raw replyFor strip ls (d0, c) = (d, c', e)" by simp
    from Cons.IH [OF this] True show ?thesis by simp
  next
    case ne: False
    show ?thesis
    proof (cases "parseMessage replyFor line strip")
      case (Inl ex)
      with Cons.prems ne have "d = d0" "e = Some ex" by simp_all
      then show ?thesis using ne by (auto intro: exI [of _ 0])
    next
      case (Inr message)
      obtain c1 e1 where r: "raw message c = (c1, e1)" by (cases "raw message c") blast
      have stop: ?thesis if "d = d0 @ [message]" "e \<noteq> None"
      proof -
        have "map Inr d = map Inr d0 @ take 1 (?P line # ?rest)"
          using that(1) Inr by simp
        then show ?thesis using that(2) ne by (auto intro: exI [of _ 1])
      qed
      have go: ?thesis if "deliver_lines raw replyFor strip ls (d0 @ [message], c1) = (d, c', e)"
      proof -
        from Cons.IH [OF that] obtain k where
          k: "map Inr d = map Inr (d0 @ [message]) @ take k ?rest"
          and all: "e = None \<longrightarrow> map Inr d = map Inr (d0 @ [message]) @ ?rest" by blast
        have "map Inr d = map Inr d0 @ take (Suc k) (?P line # ?rest)"
          using k Inr by simp
        then have "\<exists>k. map Inr d = map Inr d0 @ take k (?P line # ?rest)" by blast
        moreover have "e = None \<longrightarrow> map Inr d = map Inr d0 @ ?P line # ?rest"
          using all Inr by simp
        ultimately show ?thesis using ne by simp
      qed
      show ?thesis
      proof (cases e1)
        case None
        with Cons.prems ne Inr r
        have "deliver_lines raw replyFor strip ls (d0 @ [message], c1) = (d, c', e)" by simp
        then show ?thesis by (rule go)
      next
        case (Some ex)
        show ?thesis
        proof (cases "conn c1")
          case None
          with Cons.prems ne Inr r Some have "d = d0 @ [message]" "e \<noteq> None" by auto
          then show ?thesis by (rule stop)
        next
          case (Some cn)
          show ?thesis
          proof (cases "requestedDisconnect cn")
            case True
            with Cons.prems ne Inr r \<open>e1 = Some ex\<close> Some
            have "deliver_lines raw replyFor strip ls (d0 @ [message], c1) = (d, c', e)" by simp
            then show ?thesis by (rule go)
          next
            case False
            with Cons.prems ne Inr r \<open>e1 = Some ex\<close> Some
            have "d = d0 @ [message]" "e \<noteq> None" by auto
            then show ?thesis by (rule stop)
          qed
        qed
      qed
    qed
  qed
qed

text \<open>The listeners registered for \<open>raw\<close> in the examples: the embedded cases of the raw
  listener, and nothing for another command.\<close>

definition sample_raw :: "IMessage \<Rightarrow> Client \<Rightarrow> Client \<times> exn option" where
  "sample_raw m c = (case raw_listener m c of None \<Rightarrow> (c, None) | Some r \<Rightarrow> r)"

definition CRLF :: string where
  "CRLF = [CHR 0x0D, CHR 0x0A]"

text \<open>
  Claim C2 fails for a chunk that holds a complete line and the start of the next one:
  nothing is emitted, and the whole chunk stays in the buffer, the complete line
  included.
\<close>

theorem handleData_incomplete_counterexample:
  "fst (handleData sample_raw sample_replyFor False (''PING :a'' @ CRLF @ ''PIN'')
          ([], connect 0 None sample_client)) = ''PING :a'' @ CRLF @ ''PIN''
   \<and> fst (snd (handleData sample_raw sample_replyFor False (''PING :a'' @ CRLF @ ''PIN'')
          ([], connect 0 None sample_client))) = []"
  by (simp add: handleData_def connect_def split_lines_def CRLF_def Let_def)

text \<open>
  Claim C2 as amended.  On a chunk for the current connection, after appending it to the
  buffer and splitting the buffer on CR LF, CR or LF: if the final fragment is not
  empty, nothing is parsed or emitted, no exception is thrown and the whole buffer, the
  complete lines included, stays buffered; if the final fragment is empty, the buffer
  is reset to empty and the complete non-empty lines are parsed and emitted as
  \<open>raw\<close> messages in order, all of them unless the handler is left by an exception,
  and then those up to the line at which it is left.
\<close>

theorem handleData_framing:
  assumes "conn c = Some cn"
  shows "(last (split_lines (buffer @ chunk)) \<noteq> [] \<longrightarrow>
            handleData raw replyFor strip chunk (buffer, c)
            = (buffer @ chunk, [],
               c\<lparr> conn := Some (cn\<lparr> cyclingPingTimer :=
                                      notifyOfActivity (opt_silence c) (cyclingPingTimer cn) \<rparr>) \<rparr>,
               None))
       \<and> (last (split_lines (buffer @ chunk)) = [] \<longrightarrow>
            fst (handleData raw replyFor strip chunk (buffer, c)) = []
            \<and> (\<exists>k. map Inr (fst (snd (handleData raw replyFor strip chunk (buffer, c))))
                    = take k (map (\<lambda>l. parseMessage replyFor l strip)
                                (filter (\<lambda>l. l \<noteq> []) (butlast (split_lines (buffer @ chunk))))))
            \<and> (snd (snd (snd (handleData raw replyFor strip chunk (buffer, c)))) = None \<longrightarrow>
                 map Inr (fst (snd (handleData raw replyFor strip chunk (buffer, c))))
                 = map (\<lambda>l. parseMessage replyFor l strip)
                     (filter (\<lambda>l. l \<noteq> []) (butlast (split_lines (buffer @ chunk))))))"
proof -
  define c1 where "c1 = c\<lparr> conn := Some (cn\<lparr> cyclingPingTimer :=
                                      notifyOfActivity (opt_silence c) (cyclingPingTimer cn) \<rparr>) \<rparr>"
  define ls where "ls = split_lines (buffer @ chunk)"
  have a: "last ls \<noteq> [] \<longrightarrow>
            handleData raw replyFor strip chunk (buffer, c) = (buffer @ chunk, [], c1, None)"
    using assms by (simp add: handleData_def Let_def c1_def ls_def)
  obtain d c2 e where dl: "deliver_lines raw replyFor strip (butlast ls) ([], c1) = (d, c2, e)"
    by (cases "deliver_lines raw replyFor strip (butlast ls) ([], c1)") blast
  have h: "last ls = [] \<Longrightarrow> handleData raw replyFor strip chunk (buffer, c) = ([], d, c2, e)"
    using assms dl by (simp add: handleData_def Let_def c1_def ls_def)
  note p = deliver_lines_prefix [OF dl]
  have b: "last ls = [] \<longrightarrow>
            fst (handleData raw replyFor strip chunk (buffer, c)) = []
            \<and> (\<exists>k. map Inr (fst (snd (handleData raw replyFor strip chunk (buffer, c))))
                    = take k (map (\<lambda>l. parseMessage replyFor l strip)
                                (filter (\<lambda>l. l \<noteq> []) (butlast ls))))
            \<and> (snd (snd (snd (handleData raw replyFor strip chunk (buffer, c)))) = None \<longrightarrow>
                 map Inr (fst (snd (handleData raw replyFor strip chunk (buffer, c))))
                 = map (\<lambda>l. parseMessage replyFor l strip)
                     (filter (\<lambda>l. l \<noteq> []) (butlast ls)))"
    using p h by simp
  from a b show ?thesis unfolding c1_def ls_def by (intro conjI)
qed

text \<open>The theorem of claim C2 on two chunks for a fresh connection: a chunk that ends
  inside a line leaves everything buffered, and the chunk that completes the line
  delivers both lines.\<close>

lemma parse_ping_a:
  "parseMessage sample_replyFor ''PING :a'' False
   = Inr \<lparr> prefix = None, nick = None, user = None, host = None, server = None,
           command = Some ''PING'', rawCommand = ''PING'', commandType = Some Normal, args = [''a''] \<rparr>"
  by code_simp

lemma parse_ping_b:
  "parseMessage sample_replyFor ''PING :b'' False
   = Inr \<lparr> prefix = None, nick = None, user = None, host = None, server = None,
           command = Some ''PING'', rawCommand = ''PING'', commandType = Some Normal, args = [''b''] \<rparr>"
  by code_simp

theorem handleData_framing_witness:
  "handleData sample_raw sample_replyFor False (''PING :a'' @ CRLF @ ''PIN'')
       ([], connect 0 None sample_client)
     = (''PING :a'' @ CRLF @ ''PIN'', [], connect 0 None sample_client, None)
   \<and> fst (handleData sample_raw sample_replyFor False (''G :b'' @ CRLF)
            (''PING :a'' @ CRLF @ ''PIN'', connect 0 None sample_client)) = []
   \<and> map Inr (fst (snd (handleData sample_raw sample_replyFor False (''G :b'' @ CRLF)
            (''PING :a'' @ CRLF @ ''PIN'', connect 0 None sample_client))))
     = [parseMessage sample_replyFor ''PING :a'' False, parseMessage sample_replyFor ''PING :b'' False]"
proof -
  define cn where "cn = \<lparr> requestedDisconnect = False, cyclingPingTimer = new_ping_timer 0,
                       retryCount = 0, written = [] \<rparr>"
  have cn: "conn (connect 0 None sample_client) = Some cn"
    by (simp add: connect_def cn_def)
  have same: "(connect 0 None sample_client)\<lparr> conn := Some (cn\<lparr> cyclingPingTimer :=
                 notifyOfActivity (opt_silence (connect 0 None sample_client)) (cyclingPingTimer cn) \<rparr>) \<rparr>
              = connect 0 None sample_client"
    by (simp add: connect_def cn_def notifyOfActivity_def new_ping_timer_def)
  have l1: "last (split_lines ([] @ ''PING :a'' @ CRLF @ ''PIN'')) \<noteq> []"
    by (simp add: split_lines_def CRLF_def)
  have l2: "last (split_lines ((''PING :a'' @ CRLF @ ''PIN'') @ ''G :b'' @ CRLF)) = []"
    by (simp add: split_lines_def CRLF_def)
  have ls: "filter (\<lambda>l. l \<noteq> []) (butlast (split_lines ((''PING :a'' @ CRLF @ ''PIN'') @ ''G :b'' @ CRLF)))
            = [''PING :a'', ''PING :b'']"
    by (simp add: split_lines_def CRLF_def)
  have e: "snd (snd (snd (handleData sample_raw sample_replyFor False (''G :b'' @ CRLF)
            (''PING :a'' @ CRLF @ ''PIN'', connect 0 None sample_client)))) = None"
    by (simp add: handleData_def connect_def split_lines_def CRLF_def Let_def
        parse_ping_a parse_ping_b sample_raw_def raw_listener_def)
  note t1 = handleData_framing [OF cn, of "[]" "''PING :a'' @ CRLF @ ''PIN''" sample_raw sample_replyFor False,
      THEN conjunct1, rule_format, OF l1]
  note t2 = handleData_framing [OF cn, of "''PING :a'' @ CRLF @ ''PIN''" "''G :b'' @ CRLF" sample_raw sample_replyFor False,
      THEN conjunct2, rule_format, OF l2]
  have 1: "handleData sample_raw sample_replyFor False (''PING :a'' @ CRLF @ ''PIN'')
       ([], connect 0 None sample_client)
     = (''PING :a'' @ CRLF @ ''PIN'', [], connect 0 None sample_client, None)"
    using t1 same by simp
  have 2: "fst (handleData sample_raw sample_replyFor False (''G :b'' @ CRLF)
            (''PING :a'' @ CRLF @ ''PIN'', connect 0 None sample_client)) = []"
    using t2 by blast
  have 3: "map Inr (fst (snd (handleData sample_raw sample_replyFor False (''G :b'' @ CRLF)
            (''PING :a'' @ CRLF @ ''PIN'', connect 0 None sample_client))))
     = [parseMessage sample_replyFor ''PING :a'' False, parseMessage sample_replyFor ''PING :b'' False]"
    using t2 [THEN conjunct2, THEN conjunct2, rule_format, OF e] ls by simp
  from 1 2 3 show ?thesis by (intro conjI)
qed

text \<open>The keys of an association list after an update of an entry that is there.\<close>

lemma update_existing_keys:
  "map_of al k = Some v \<Longrightarrow> map fst (AList.update k w al) = map fst al"
proof -
  assume "map_of al k = Some v"
  then have "(k, v) \<in> set al" by (rule map_of_SomeD)
  then have "k \<in> fst ` set al" by force
  then show ?thesis by (simp add: AList.update_keys)
qed

lemma rename_in_all_keys: "map fst (rename_in_all old new ks cs) = map fst cs"
  unfolding rename_in_all_def
proof (induction ks arbitrary: cs)
  case Nil
  show ?case by simp
next
  case (Cons a ks)
  show ?case
  proof (cases "map_of cs a")
    case None
    with Cons show ?thesis by simp
  next
    case (Some ch)
    with Cons [of "AList.update a (rename_user old new ch) cs"] update_existing_keys [OF Some]
    show ?thesis by simp
  qed
qed

lemma rename_in_all_map_of:
  "distinct ks \<Longrightarrow>
   map_of (rename_in_all old new ks cs) k
   = (if k \<in> set ks then map_option (rename_user old new) (map_of cs k) else map_of cs k)"
  unfolding rename_in_all_def
proof (induction ks arbitrary: cs)
  case Nil
  show ?case by simp
next
  case (Cons a ks)
  then have d: "distinct ks" and a: "a \<notin> set ks" by simp_all
  show ?case
  proof (cases "map_of cs a")
    case None
    with Cons.IH [OF d, of cs] a show ?thesis by auto
  next
    case (Some ch)
    with Cons.IH [OF d, of "AList.update a (rename_user old new ch) cs"] a
    show ?thesis by (auto simp: AList.update_conv')
  qed
qed

lemma Object_keys_set: "set (Object_keys al) = set (map fst al)"
  by (auto simp: Object_keys_def)

lemma Object_keys_distinct: "distinct (map fst al) \<Longrightarrow> distinct (Object_keys al)"
  by (auto simp: Object_keys_def)

text \<open>The property \<open>n\<close> of the \<open>users\<close> of the channel stored under \<open>k\<close>.\<close>

definition users_in :: "Client \<Rightarrow> string \<Rightarrow> string \<Rightarrow> string option option" where
  "users_in c k n = (case map_of (chans c) k of None \<Rightarrow> None | Some ch \<Rightarrow> users ch n)"

text \<open>The sample client after it has joined \<open>#Foo\<close>, alone in the channel.\<close>

definition sample_joined :: Client where
  "sample_joined =
     sample_client\<lparr> chans := [(''#foo'', (new_channel ''#foo'' ''#Foo'')
                                  \<lparr> users := (\<lambda>n. None)(''bot'' := Some (Some [])) \<rparr>)] \<rparr>"

text \<open>
  Claim C3 fails where a known channel does not contain the old nick: \<open>zed\<close> is not in
  \<open>#foo\<close>, yet after \<open>zed\<close> has changed its nick to \<open>zoe\<close> the event lists \<open>#foo\<close>, and
  \<open>zoe\<close> is a property of the users of \<open>#foo\<close> (holding \<open>undefined\<close>).
\<close>

theorem nick_change_counterexample:
  "users_in sample_joined ''#foo'' ''zed'' = None
   \<and> events (fst (case_NICK (sample_message ''zed'' ''NICK'' [''zoe'']) sample_joined))
     = [Event ''nick'' [Str (Some ''zed''), Str (Some ''zoe''), Strs [''#foo''],
                        Msg (sample_message ''zed'' ''NICK'' [''zoe''])]]
   \<and> users_in (fst (case_NICK (sample_message ''zed'' ''NICK'' [''zoe'']) sample_joined))
        ''#foo'' ''zoe'' = Some None"
  by (simp add: users_in_def sample_joined_def sample_client_def sample_message_def case_NICK_def
      and_then_def Let_def arg_at_def js_key_def emit_def Object_keys_def isArrayIndex_def
      isDigit_def rename_in_all_def rename_user_def set_user_def delete_user_def new_channel_def)

text \<open>
  Claim C3 as amended.  For every NICK message from \<open>old\<close> to \<open>new\<close>: the listener
  returns; if \<open>old\<close> is the local nick, the local nick becomes \<open>new\<close> and the maximum
  line length is recomputed from it, and otherwise both stay; the keys of the channel
  map stay; in every known channel that contains \<open>old\<close>, if \<open>new\<close> differs from
  \<open>old\<close> and is not \<open>__proto__\<close>, the entry of \<open>old\<close> has moved to \<open>new\<close> with its prefix
  string and the other nicks are as before; and exactly one event is emitted, \<open>nick\<close>,
  whose channel list holds all known channels (the keys of the channel map as
  \<open>Object.keys\<close> lists them).
\<close>

theorem nick_change:
  assumes "\<not> outside c"
    and "nick m = Some old" and "arg_at m 0 = Some new" and "distinct (map fst (chans c))"
  shows "snd (case_NICK m c) = None
    \<and> (self_nick c = Some old \<longrightarrow>
         self_nick (fst (case_NICK m c)) = Some new
         \<and> maxLineLength (fst (case_NICK m c)) = 497 - int (length new) - int (length (hostMask c)))
    \<and> (self_nick c \<noteq> Some old \<longrightarrow>
         self_nick (fst (case_NICK m c)) = self_nick c
         \<and> maxLineLength (fst (case_NICK m c)) = maxLineLength c)
    \<and> map fst (chans (fst (case_NICK m c))) = map fst (chans c)
    \<and> (\<forall>k ch p. map_of (chans c) k = Some ch \<and> users ch old = Some p
                 \<and> new \<noteq> old \<and> new \<noteq> ''__proto__'' \<longrightarrow>
         users_in (fst (case_NICK m c)) k new = Some p
         \<and> users_in (fst (case_NICK m c)) k old = None
         \<and> (\<forall>n. n \<noteq> old \<and> n \<noteq> new \<longrightarrow> users_in (fst (case_NICK m c)) k n = users ch n))
    \<and> events (fst (case_NICK m c))
        = events c @ [Event ''nick'' [Str (Some old), Str (Some new),
                                     Strs (Object_keys (chans c)), Msg m]]
    \<and> set (Object_keys (chans c)) = set (map fst (chans c))"
proof -
  define c1 where "c1 = (if self_nick c = Some old
      then c\<lparr> self_nick := Some new,
              maxLineLength := 497 - int (length new) - int (length (hostMask c)) \<rparr>
      else c)"
  have first: "(if nick m = self_nick c
        then updateMaxLineLength (c\<lparr> self_nick := arg_at m 0 \<rparr>)
        else (c, None)) = (c1, None)"
    using assms(2,3) by (auto simp: c1_def updateMaxLineLength_def)
  have c1: "chans c1 = chans c" "events c1 = events c"
    by (simp_all add: c1_def)
  define r where "r = rename_in_all old new (Object_keys (chans c)) (chans c)"
  define flag where "flag = (outside c1 \<or> list_ex (\<lambda>kv. reads_inherited old (snd kv)) (chans c))"
  have res: "case_NICK m c
             = (emit ''nick'' [Str (Some old), Str (Some new), Strs (Object_keys (chans c)), Msg m]
                  (c1\<lparr> chans := r, outside := flag \<rparr>), None)"
    unfolding case_NICK_def first
    using assms(2,3) by (simp add: and_then_def Let_def c1 js_key_def r_def flag_def)
  have ch: "chans (fst (case_NICK m c)) = r"
    by (simp add: res)
  have keys: "map fst r = map fst (chans c)"
    unfolding r_def by (rule rename_in_all_keys)
  have look: "map_of r k = map_option (rename_user old new) (map_of (chans c) k)" for k
  proof -
    have d: "distinct (Object_keys (chans c))"
      using assms(4) by (rule Object_keys_distinct)
    have "k \<notin> set (Object_keys (chans c)) \<Longrightarrow> map_of (chans c) k = None"
      by (simp add: Object_keys_set map_of_eq_None_iff)
    then show ?thesis
      unfolding r_def rename_in_all_map_of [OF d] by auto
  qed
  have moved: "\<forall>k ch p. map_of (chans c) k = Some ch \<and> users ch old = Some p
                 \<and> new \<noteq> old \<and> new \<noteq> ''__proto__'' \<longrightarrow>
         users_in (fst (case_NICK m c)) k new = Some p
         \<and> users_in (fst (case_NICK m c)) k old = None
         \<and> (\<forall>n. n \<noteq> old \<and> n \<noteq> new \<longrightarrow> users_in (fst (case_NICK m c)) k n = users ch n)"
    by (auto simp: users_in_def ch look rename_user_def set_user_def delete_user_def)
  have 1: "snd (case_NICK m c) = None" by (simp add: res)
  have 2: "self_nick c = Some old \<longrightarrow>
         self_nick (fst (case_NICK m c)) = Some new
         \<and> maxLineLength (fst (case_NICK m c)) = 497 - int (length new) - int (length (hostMask c))"
    by (simp add: res c1_def emit_def)
  have 3: "self_nick c \<noteq> Some old \<longrightarrow>
         self_nick (fst (case_NICK m c)) = self_nick c
         \<and> maxLineLength (fst (case_NICK m c)) = maxLineLength c"
    by (simp add: res c1_def emit_def)
  have 4: "map fst (chans (fst (case_NICK m c))) = map fst (chans c)"
    using keys by (simp add: ch)
  have 5: "events (fst (case_NICK m c))
        = events c @ [Event ''nick'' [Str (Some old), Str (Some new),
                                     Strs (Object_keys (chans c)), Msg m]]"
    by (simp add: res emit_def c1)
  have 6: "set (Object_keys (chans c)) = set (map fst (chans c))"
    by (rule Object_keys_set)
  from 1 2 3 4 moved 5 6 show ?thesis by (intro conjI)
qed

text \<open>The theorem of claim C3 for the sample client in \<open>#foo\<close> changing its own nick from
  \<open>bot\<close> to \<open>bot2\<close>.\<close>

theorem nick_change_witness:
  "snd (case_NICK (sample_message ''bot'' ''NICK'' [''bot2'']) sample_joined) = None
   \<and> self_nick (fst (case_NICK (sample_message ''bot'' ''NICK'' [''bot2'']) sample_joined)) = Some ''bot2''
   \<and> maxLineLength (fst (case_NICK (sample_message ''bot'' ''NICK'' [''bot2'']) sample_joined)) = 485
   \<and> users_in (fst (case_NICK (sample_message ''bot'' ''NICK'' [''bot2'']) sample_joined))
        ''#foo'' ''bot2'' = Some (Some [])
   \<and> users_in (fst (case_NICK (sample_message ''bot'' ''NICK'' [''bot2'']) sample_joined))
        ''#foo'' ''bot'' = None
   \<and> events (fst (case_NICK (sample_message ''bot'' ''NICK'' [''bot2'']) sample_joined))
     = [Event ''nick'' [Str (Some ''bot''), Str (Some ''bot2''), Strs [''#foo''],
                        Msg (sample_message ''bot'' ''NICK'' [''bot2''])]]"
proof -
  have o: "\<not> outside sample_joined"
    by (simp add: sample_joined_def sample_client_def)
  have n: "nick (sample_message ''bot'' ''NICK'' [''bot2'']) = Some ''bot''"
    by (simp add: sample_message_def)
  have a: "arg_at (sample_message ''bot'' ''NICK'' [''bot2'']) 0 = Some ''bot2''"
    by (simp add: sample_message_def arg_at_def)
  have d: "distinct (map fst (chans sample_joined))"
    by (simp add: sample_joined_def)
  note t = nick_change [OF o n a d]
  have s: "self_nick sample_joined = Some ''bot''" "hostMask sample_joined = ''bot@host''"
    "events sample_joined = []"
    by (simp_all add: sample_joined_def sample_client_def)
  have k: "Object_keys (chans sample_joined) = [''#foo'']"
    by (simp add: sample_joined_def Object_keys_def isArrayIndex_def isDigit_def)
  have e: "map_of (chans sample_joined) ''#foo''
             = Some ((new_channel ''#foo'' ''#Foo'')\<lparr> users := (\<lambda>n. None)(''bot'' := Some (Some [])) \<rparr>)
           \<and> users ((new_channel ''#foo'' ''#Foo'')\<lparr> users := (\<lambda>n. None)(''bot'' := Some (Some [])) \<rparr>) ''bot''
             = Some (Some [])
           \<and> ''bot2'' \<noteq> ''bot'' \<and> ''bot2'' \<noteq> ''__proto__''"
    by (simp add: sample_joined_def)
  note mv = t [THEN conjunct2, THEN conjunct2, THEN conjunct2, THEN conjunct2, THEN conjunct1,
      rule_format, OF e]
  have 1: "snd (case_NICK (sample_message ''bot'' ''NICK'' [''bot2'']) sample_joined) = None"
    using t by blast
  have 2: "self_nick (fst (case_NICK (sample_message ''bot'' ''NICK'' [''bot2'']) sample_joined)) = Some ''bot2''"
    using t [THEN conjunct2, THEN conjunct1] s by simp
  have 3: "maxLineLength (fst (case_NICK (sample_message ''bot'' ''NICK'' [''bot2'']) sample_joined)) = 485"
    using t [THEN conjunct2, THEN conjunct1] s by simp
  have 4: "users_in (fst (case_NICK (sample_message ''bot'' ''NICK'' [''bot2'']) sample_joined))
        ''#foo'' ''bot2'' = Some (Some [])"
    using mv by blast
  have 5: "users_in (fst (case_NICK (sample_message ''bot'' ''NICK'' [''bot2'']) sample_joined))
        ''#foo'' ''bot'' = None"
    using mv by blast
  have 6: "events (fst (case_NICK (sample_message ''bot'' ''NICK'' [''bot2'']) sample_joined))
     = [Event ''nick'' [Str (Some ''bot''), Str (Some ''bot2''), Strs [''#foo''],
                        Msg (sample_message ''bot'' ''NICK'' [''bot2''])]]"
    using t [THEN conjunct2, THEN conjunct2, THEN conjunct2, THEN conjunct2, THEN conjunct2,
        THEN conjunct1] s k by simp
  from 1 2 3 4 5 6 show ?thesis by (intro conjI)
qed

subsection \<open>Channels are addressed by their lower-cased names\<close>



text \<open>Lower-casing reaches the capital letters of Latin-1, but not the multiplication
  sign or the sharp s.\<close>

lemma toLowerCase_latin1:
  "toLowerCase [CHR ''#'', CHR 0xC9, CHR 0xD7, CHR 0xDE, CHR 0xDF, CHR ''Z'']
   = [CHR ''#'', CHR 0xE9, CHR 0xD7, CHR 0xFE, CHR 0xDF, CHR ''z'']"
  by code_simp

text \<open>The keys of the channel map are distinct and lower-cased.\<close>

definition keys_ok :: "Client \<Rightarrow> bool" where
  "keys_ok c = (distinct (map fst (chans c))
                \<and> list_all (\<lambda>k. toLowerCase k = k) (map fst (chans c)))"











lemma keys_ok_emit [simp]: "keys_ok (emit name as c) = keys_ok c"
  by (simp add: keys_ok_def)









text \<open>One letter of a MODE message changes at most the entry under \<open>k\<close>.\<close>

definition same_but :: "string \<Rightarrow> Client \<Rightarrow> Client \<Rightarrow> bool" where
  "same_but k c c' \<longleftrightarrow>
     map fst (chans c') = map fst (chans c)
     \<and> (\<forall>k'. k' \<noteq> k \<longrightarrow> map_of (chans c') k' = map_of (chans c) k')"

lemma same_but_refl [simp]: "same_but k c c"
  by (simp add: same_but_def)

lemma same_but_emit [simp]: "same_but k c (emit name as c') = same_but k c c'"
  by (simp add: same_but_def)

















end
